theory Spec2Isabelle
  imports Complex_Main "HOL-Library.AList" "HOL-Library.Multiset"
begin

section \<open>Data exchanged with the PubMed endpoints\<close>

text \<open>
  A timestamp is what \<^verbatim>\<open>datetime.datetime.now()\<close> returns, counted in microseconds
  (the resolution of \<^verbatim>\<open>datetime\<close>); \<^verbatim>\<open>timedelta(seconds=1)\<close> is \<open>1000000\<close>.
\<close>

type_synonym time = int

text \<open>
  A parameter dictionary maps names to values; Python dictionaries keep insertion order
  and \<^verbatim>\<open>d[k] = v\<close> replaces the value of a key that is present, which is what
  \<open>AList.update\<close> does on an association list.
\<close>

datatype pval = Str string | Num int | Ids "string list"

type_synonym params = "(string \<times> pval) list"

record request =
  url :: string
  params :: params
  timeout :: int

text \<open>
  What \<^verbatim>\<open>response.get("esearchresult", {}).get("count")\<close> holds, by what \<^verbatim>\<open>int\<close> makes of
  it: the key is absent (\<^verbatim>\<open>int(None)\<close> raises \<^verbatim>\<open>TypeError\<close>), its value is no integer
  (\<^verbatim>\<open>int\<close> raises \<^verbatim>\<open>ValueError\<close>), or it is an integer.
\<close>

datatype count_field = Absent | NotInteger | Count int

text \<open>
  The JSON answer of the search endpoint, as far as the client reads it: the count, and
  \<^verbatim>\<open>.get("idlist", [])\<close> (\<open>None\<close> when the key is absent).
\<close>

record esearchresult =
  result_count :: count_field
  idlist :: "string list option"

text \<open>An XML element: its tag and its children in document order.\<close>

datatype element = Element (tag: string) (children: "element list")

text \<open>
  The body of an HTTP answer, by what the two readers make of it: \<^verbatim>\<open>response.json()\<close>
  (\<open>None\<close> when the body is no JSON) and \<^verbatim>\<open>xml.fromstring(response.text)\<close>
  (\<open>None\<close> when the text is no well-formed XML).
\<close>

record body =
  json :: "esearchresult option"
  xml_text :: "element option"

text \<open>
  \<^verbatim>\<open>requests.get\<close> followed by \<^verbatim>\<open>raise_for_status()\<close>: either an exception
  (error status, timeout) or a body. The server may answer the same request differently
  over time: its answer depends on the requests made before.
\<close>

datatype reply = Failed | Replied body

type_synonym server = "request list \<Rightarrow> request \<Rightarrow> reply"

datatype error =
  HTTPError | JSONDecodeError | ParseError | TypeError | ValueError | AttributeError
  | KeyError | ZeroDivisionError

text \<open>
  What a call does: it returns, it raises, or it never leaves the admission loop of
  \<^verbatim>\<open>_get\<close>.
\<close>

datatype 'a outcome = Returned 'a | Raised error | Spinning

datatype payload = JsonDoc esearchresult | TextDoc "element option"

text \<open>
  Modelled from the spec: the record classes of \<^verbatim>\<open>article.py\<close> and \<^verbatim>\<open>book.py\<close> are
  not part of the sources at hand; the spec delegates field decoding to them
  ("decoding each into its respective record type"). A record is kept as the element it
  was built from, tagged with its class.
\<close>

datatype publication = PubMedArticle element | PubMedBookArticle element

section \<open>The client\<close>

text \<open>
  The rate limiter's part of \<^verbatim>\<open>self\<close>, together with the clock it reads: \<open>clock k\<close> is the
  value of the \<open>k\<close>-th call of \<^verbatim>\<open>datetime.datetime.now()\<close> and \<open>ticks\<close> counts the calls made.
\<close>

record limiter =
  rateLimit :: int
  requestsMade :: "time list"
  clock :: "nat \<Rightarrow> time"
  ticks :: nat

text \<open>
  Dictionaries are objects: \<open>heap\<close> maps an address to the dictionary stored there and
  \<open>next_addr\<close> is the first address not in use. \<open>parameters\<close> is the address held by
  \<^verbatim>\<open>self.parameters\<close>; \<open>sent\<close> lists the requests made so far, oldest first.
\<close>

record world =
  tool :: string
  email :: string
  limiter :: limiter
  parameters :: nat
  heap :: "nat \<Rightarrow> params"
  next_addr :: nat
  sent :: "request list"

definition BASE_URL :: string where
  "BASE_URL = ''https://eutils.ncbi.nlm.nih.gov''"

text \<open>\<^verbatim>\<open>PubMed.__init__\<close>, for a given clock.\<close>

definition PubMed_init :: "string \<Rightarrow> string \<Rightarrow> (nat \<Rightarrow> time) \<Rightarrow> world" where
  "PubMed_init tool_name email_addr ck =
     \<lparr>tool = tool_name, email = email_addr,
      limiter = \<lparr>rateLimit = 3, requestsMade = [], clock = ck, ticks = 0\<rparr>,
      parameters = 0,
      heap = (\<lambda>_. [])(0 := [(''tool'', Str tool_name), (''email'', Str email_addr),
                             (''db'', Str ''pubmed'')]),
      next_addr = 1,
      sent = []\<rparr>"

text \<open>\<^verbatim>\<open>self.parameters.copy()\<close>: a new dictionary with the same items, at a fresh address.\<close>

definition copy_parameters :: "world \<Rightarrow> nat \<times> world" where
  "copy_parameters w =
     (next_addr w,
      w\<lparr>heap := (heap w)(next_addr w := heap w (parameters w)), next_addr := Suc (next_addr w)\<rparr>)"

text \<open>\<^verbatim>\<open>d[k] = v\<close> on the dictionary at address \<open>p\<close>.\<close>

definition setitem :: "nat \<Rightarrow> string \<Rightarrow> pval \<Rightarrow> world \<Rightarrow> world" where
  "setitem p k v w = w\<lparr>heap := (heap w)(p := AList.update k v (heap w p))\<rparr>"

section \<open>The rate limiter\<close>

text \<open>
  The list comprehension of \<^verbatim>\<open>_exceededRateLimit\<close> evaluates its condition, and with it
  \<^verbatim>\<open>datetime.datetime.now()\<close>, once for every logged timestamp.
\<close>

fun recent :: "(nat \<Rightarrow> time) \<Rightarrow> nat \<Rightarrow> time list \<Rightarrow> time list" where
  "recent ck k [] = []"
| "recent ck k (requestTime # rest) =
     (if requestTime > ck k - 1000000 then requestTime # recent ck (Suc k) rest
      else recent ck (Suc k) rest)"

definition exceededRateLimit :: "limiter \<Rightarrow> bool \<times> limiter" where
  "exceededRateLimit l =
     (let l' = l\<lparr>requestsMade := recent (clock l) (ticks l) (requestsMade l),
                 ticks := ticks l + length (requestsMade l)\<rparr>
      in (int (length (requestsMade l')) > rateLimit l', l'))"

text \<open>
  \<^verbatim>\<open>while self._exceededRateLimit(): pass\<close>. The loop may run forever (a clock that does
  not advance), which is the value \<open>None\<close>.
\<close>

partial_function (option) admit :: "limiter \<Rightarrow> limiter option" where
  "admit l =
     (if fst (exceededRateLimit l) then admit (snd (exceededRateLimit l))
      else Some (snd (exceededRateLimit l)))"

declare admit.simps [code]

text \<open>\<^verbatim>\<open>self._requestsMade.append(datetime.datetime.now())\<close>\<close>

definition record_request :: "limiter \<Rightarrow> limiter" where
  "record_request l =
     l\<lparr>requestsMade := requestsMade l @ [clock l (ticks l)], ticks := Suc (ticks l)\<rparr>"

section \<open>Requests\<close>

text \<open>
  \<^verbatim>\<open>_get(url, parameters, output, timeout)\<close>, where \<open>p\<close> is the address of the dictionary
  the caller passes.
\<close>

definition get :: "server \<Rightarrow> string \<Rightarrow> nat \<Rightarrow> string \<Rightarrow> int \<Rightarrow> world \<Rightarrow> payload outcome \<times> world" where
  "get srv u p output tmo w =
     (case admit (limiter w) of
        None \<Rightarrow> (Spinning, w)
      | Some l \<Rightarrow>
          let w1 = setitem p ''retmode'' (Str output) (w\<lparr>limiter := l\<rparr>);
              rq = \<lparr>url = BASE_URL @ u, params = heap w1 p, timeout = tmo\<rparr>;
              w2 = w1\<lparr>sent := sent w1 @ [rq]\<rparr>
          in (case srv (sent w1) rq of
                Failed \<Rightarrow> (Raised HTTPError, w2)
              | Replied b \<Rightarrow>
                  let w3 = w2\<lparr>limiter := record_request (limiter w2)\<rparr>
                  in if output = ''json''
                     then (case json b of
                             None \<Rightarrow> (Raised JSONDecodeError, w3)
                           | Some j \<Rightarrow> (Returned (JsonDoc j), w3))
                     else (Returned (TextDoc (xml_text b)), w3)))"

section \<open>Fetching records\<close>

text \<open>
  \<^verbatim>\<open>Element.iter(tag)\<close> of the standard library: the element itself when its tag is the
  one asked for, then what \<^verbatim>\<open>iter\<close> finds in each child, in document order.
\<close>

fun iter :: "string \<Rightarrow> element \<Rightarrow> element list" where
  "iter t (Element tg cs) =
     (if tg = t then [Element tg cs] else []) @ concat (map (iter t) cs)"

text \<open>
  The two loops of \<^verbatim>\<open>_getArticles\<close> over a parsed payload: a record for every
  \<^verbatim>\<open>PubmedArticle\<close> element, then a record for every \<^verbatim>\<open>PubmedBookArticle\<close> element.
\<close>

definition publications :: "element \<Rightarrow> publication list" where
  "publications tree =
     map PubMedArticle (iter ''PubmedArticle'' tree)
     @ map PubMedBookArticle (iter ''PubmedBookArticle'' tree)"

text \<open>
  \<^verbatim>\<open>_getArticles(article_ids, timeout)\<close>. The source is a generator; the model gives what
  it yields when it is run to its end.
\<close>

definition getArticles :: "server \<Rightarrow> string list \<Rightarrow> int \<Rightarrow> world \<Rightarrow> publication list outcome \<times> world" where
  "getArticles srv article_ids tmo w =
     (let (p, w0) = copy_parameters w;
          w1 = setitem p ''id'' (Ids article_ids) w0
      in case get srv ''/entrez/eutils/efetch.fcgi'' p ''xml'' tmo w1 of
           (Spinning, w2) \<Rightarrow> (Spinning, w2)
         | (Raised e, w2) \<Rightarrow> (Raised e, w2)
         | (Returned (JsonDoc j), w2) \<Rightarrow> (Raised TypeError, w2)
         | (Returned (TextDoc None), w2) \<Rightarrow> (Raised ParseError, w2)
         | (Returned (TextDoc (Some tree)), w2) \<Rightarrow> (Returned (publications tree), w2))"

text \<open>
  Modelled from the spec: \<^verbatim>\<open>batches\<close> of \<^verbatim>\<open>helpers.py\<close> is not part of the sources at
  hand. The spec has the id list split "into fixed-size batches", each "a bounded-size
  slice" of it: consecutive slices of \<open>n\<close> ids, the last one shorter when the length is
  no multiple of \<open>n\<close>. The spec says nothing of a size of zero; the model makes no batch then.
\<close>

function batches :: "'a list \<Rightarrow> nat \<Rightarrow> 'a list list" where
  "batches xs n = (if n = 0 \<or> xs = [] then [] else take n xs # batches (drop n xs) n)"
  by pat_completeness auto
termination
  by (relation "measure (\<lambda>(xs, n). length xs)") auto

declare batches.simps [simp del]

text \<open>
  The loop shared by \<^verbatim>\<open>query\<close>, \<^verbatim>\<open>get_publications_from_ids\<close> and \<^verbatim>\<open>batch_query\<close>:
  one \<^verbatim>\<open>_getArticles\<close> per batch, in order; the first exception ends it.
\<close>

fun fetch_batches :: "server \<Rightarrow> int \<Rightarrow> string list list \<Rightarrow> world \<Rightarrow> publication list list outcome \<times> world" where
  "fetch_batches srv tmo [] w = (Returned [], w)"
| "fetch_batches srv tmo (batch # rest) w =
     (case getArticles srv batch tmo w of
        (Spinning, w1) \<Rightarrow> (Spinning, w1)
      | (Raised e, w1) \<Rightarrow> (Raised e, w1)
      | (Returned arts, w1) \<Rightarrow>
          (case fetch_batches srv tmo rest w1 of
             (Returned others, w2) \<Rightarrow> (Returned (arts # others), w2)
           | (Raised e, w2) \<Rightarrow> (Raised e, w2)
           | (Spinning, w2) \<Rightarrow> (Spinning, w2)))"

text \<open>
  \<^verbatim>\<open>get_publications_from_ids(article_ids, timeout)\<close>: batches of 250, chained. The
  chain is lazy in the source; the model gives its items when it is consumed to its end.
\<close>

definition get_publications_from_ids :: "server \<Rightarrow> string list \<Rightarrow> int \<Rightarrow> world \<Rightarrow> publication list outcome \<times> world" where
  "get_publications_from_ids srv article_ids tmo w =
     apfst (map_outcome concat) (fetch_batches srv tmo (batches article_ids 250) w)"

section \<open>Resolving ids\<close>

text \<open>\<^verbatim>\<open>str\<close> of an integer, as the f-strings of \<^verbatim>\<open>_getArticleIds\<close> format the dates.\<close>

fun str_nat :: "nat \<Rightarrow> string" where
  "str_nat n =
     (if n < 10 then [''0123456789'' ! n]
      else str_nat (n div 10) @ [''0123456789'' ! (n mod 10)])"

declare str_nat.simps [simp del]

definition str_int :: "int \<Rightarrow> string" where
  "str_int i = (if i < 0 then CHR ''-'' # str_nat (nat (- i)) else str_nat (nat i))"

record window =
  min_year :: int
  max_year :: int
  min_month :: int
  max_month :: int
  min_day :: int
  max_day :: int

text \<open>The defaults of the keyword arguments of \<^verbatim>\<open>_getArticleIds\<close>.\<close>

definition default_window :: window where
  "default_window =
     \<lparr>min_year = 1000, max_year = 3000, min_month = 1, max_month = 12, min_day = 1, max_day = 31\<rparr>"

text \<open>Lines 255 to 265: the dictionary of the search request, from a copy of the defaults.\<close>

definition search_parameters :: "params \<Rightarrow> string \<Rightarrow> int \<Rightarrow> window \<Rightarrow> params" where
  "search_parameters defaults query max_results win =
     (let ps = AList.update ''term'' (Str query) defaults;
          ps = AList.update ''retmax'' (Num 10000) ps;
          ps = AList.update ''mindate''
                 (Str (str_int (min_year win) @ ''/'' @ str_int (min_month win) @ ''/''
                       @ str_int (min_day win))) ps;
          ps = AList.update ''maxdate''
                 (Str (str_int (max_year win) @ ''/'' @ str_int (max_month win) @ ''/''
                       @ str_int (max_day win))) ps
      in if max_results < 10000 then AList.update ''retmax'' (Num max_results) ps else ps)"

text \<open>\<^verbatim>\<open>parameters["retmax"]\<close>, read back from the dictionary.\<close>

definition getitem_num :: "params \<Rightarrow> string \<Rightarrow> int option" where
  "getitem_num ps k = (case map_of ps k of Some (Num n) \<Rightarrow> Some n | _ \<Rightarrow> None)"

text \<open>
  Python's \<^verbatim>\<open>/\<close> on two integers is true division: its value is a \<^verbatim>\<open>float\<close> whether
  or not the division is exact (\<^verbatim>\<open>6 / 3\<close> is \<^verbatim>\<open>2.0\<close>). Only the type of the quotient
  is looked at, so the float is kept as the exact quotient.
\<close>

datatype number = PyInt int | PyFloat real

definition truediv :: "int \<Rightarrow> int \<Rightarrow> number" where
  "truediv a b = PyFloat (real_of_int a / real_of_int b)"

fun isinstance_float :: "number \<Rightarrow> bool" where
  "isinstance_float (PyFloat x) = True"
| "isinstance_float (PyInt i) = False"

text \<open>
  Lines 280 to 288: the windows of the recursive calls of the year branch, in the order
  they are made. The calls pass the years only, so months and days take their defaults.
\<close>

definition year_calls :: "window \<Rightarrow> int \<Rightarrow> window list" where
  "year_calls win batch_count =
     (let year_gap = max_year win - min_year win;
          year_step = year_gap div batch_count;
          year_boundaries = map (\<lambda>i. min_year win + year_step * int i) [0..<nat batch_count]
      in map (\<lambda>i. \<lparr>min_year = (if i = min_year win then i else i + 1), max_year = i + year_step,
                    min_month = 1, max_month = 12, min_day = 1, max_day = 31\<rparr>)
             (sort (remdups year_boundaries))
         @ (if isinstance_float (truediv year_gap batch_count)
            then [\<lparr>min_year = max_year win, max_year = max_year win,
                   min_month = 1, max_month = 12, min_day = 1, max_day = 31\<rparr>]
            else []))"

text \<open>Lines 293 to 303: the same for months; the calls pass years and months.\<close>

definition month_calls :: "window \<Rightarrow> int \<Rightarrow> window list" where
  "month_calls win batch_count =
     (let month_gap = max_month win - min_month win;
          month_step = month_gap div batch_count;
          month_boundaries = map (\<lambda>i. min_month win + month_step * int i) [0..<nat batch_count]
      in map (\<lambda>i. \<lparr>min_year = min_year win, max_year = max_year win,
                    min_month = (if i = min_month win then i else i + 1),
                    max_month = i + month_step, min_day = 1, max_day = 31\<rparr>)
             (sort (remdups month_boundaries))
         @ (if isinstance_float (truediv month_gap batch_count)
            then [\<lparr>min_year = min_year win, max_year = max_year win,
                   min_month = max_month win, max_month = max_month win,
                   min_day = 1, max_day = 31\<rparr>]
            else []))"

text \<open>Lines 307 to 320: the same for days.\<close>

definition day_calls :: "window \<Rightarrow> int \<Rightarrow> window list" where
  "day_calls win batch_count =
     (let day_gap = max_day win - min_day win;
          day_step = day_gap div batch_count;
          day_boundaries = map (\<lambda>i. min_day win + day_step * int i) [0..<nat batch_count]
      in map (\<lambda>i. \<lparr>min_year = min_year win, max_year = max_year win,
                    min_month = min_month win, max_month = max_month win,
                    min_day = (if i = min_day win then i else i + 1),
                    max_day = i + day_step\<rparr>)
             (sort (remdups day_boundaries))
         @ (if isinstance_float (truediv day_gap batch_count)
            then [\<lparr>min_year = min_year win, max_year = max_year win,
                   min_month = min_month win, max_month = max_month win,
                   min_day = max_day win, max_day = max_day win\<rparr>]
            else []))"

text \<open>
  \<^verbatim>\<open>article_ids += self._getArticleIds(...)\<close> for each window in turn; \<open>None\<close> when a call
  does not return, and the first exception ends the loop.
\<close>

fun collect ::
  "(window \<Rightarrow> world \<Rightarrow> (string list outcome \<times> world) option) \<Rightarrow> window list \<Rightarrow> string list
     \<Rightarrow> world \<Rightarrow> (string list outcome \<times> world) option" where
  "collect self_getArticleIds [] article_ids w = Some (Returned article_ids, w)"
| "collect self_getArticleIds (c # cs) article_ids w =
     (case self_getArticleIds c w of
        None \<Rightarrow> None
      | Some (Returned ids, w1) \<Rightarrow> collect self_getArticleIds cs (article_ids @ ids) w1
      | Some (Raised e, w1) \<Rightarrow> Some (Raised e, w1)
      | Some (Spinning, w1) \<Rightarrow> Some (Spinning, w1))"

text \<open>
  Lines 276 to 331, once the count has been read: what \<^verbatim>\<open>_getArticleIds\<close> does with a
  response, \<open>self_getArticleIds\<close> being the method itself. \<^verbatim>\<open>//\<close> raises on a zero
  divisor. The conditions of the month and day branches compare a bound with itself, as
  the source does.
\<close>

definition split_or_return ::
  "(window \<Rightarrow> world \<Rightarrow> (string list outcome \<times> world) option) \<Rightarrow> window \<Rightarrow> esearchresult
     \<Rightarrow> int \<Rightarrow> int \<Rightarrow> world \<Rightarrow> (string list outcome \<times> world) option" where
  "split_or_return self_getArticleIds win response total_result_count retmax w =
     (if total_result_count > retmax then
        (if retmax = 0 then Some (Raised ZeroDivisionError, w)
         else
           let batch_count = total_result_count div retmax + 1 in
           if min_year win \<noteq> max_year win then
             (if batch_count = 0 then Some (Raised ZeroDivisionError, w)
              else collect self_getArticleIds (year_calls win batch_count) [] w)
           else if min_month win \<noteq> min_month win then
             (if batch_count = 0 then Some (Raised ZeroDivisionError, w)
              else collect self_getArticleIds (month_calls win batch_count) [] w)
           else if min_day win \<noteq> min_day win then
             (if batch_count = 0 then Some (Raised ZeroDivisionError, w)
              else collect self_getArticleIds (day_calls win batch_count) [] w)
           else Some (Returned [], w))
      else Some (Returned ([] @ (case idlist response of None \<Rightarrow> [] | Some ids \<Rightarrow> ids)), w))"

text \<open>The body of \<^verbatim>\<open>_getArticleIds\<close>; the two \<^verbatim>\<open>print\<close> calls are left out.\<close>

definition getArticleIds_body ::
  "(window \<Rightarrow> world \<Rightarrow> (string list outcome \<times> world) option) \<Rightarrow> server \<Rightarrow> string \<Rightarrow> int \<Rightarrow> int
     \<Rightarrow> window \<Rightarrow> world \<Rightarrow> (string list outcome \<times> world) option" where
  "getArticleIds_body self_getArticleIds srv query max_results tmo win w =
     (let (p, w0) = copy_parameters w;
          w1 = w0\<lparr>heap := (heap w0)(p := search_parameters (heap w0 p) query max_results win)\<rparr>
      in case get srv ''/entrez/eutils/esearch.fcgi'' p ''json'' tmo w1 of
           (Spinning, w2) \<Rightarrow> Some (Spinning, w2)
         | (Raised e, w2) \<Rightarrow> Some (Raised e, w2)
         | (Returned (TextDoc t), w2) \<Rightarrow> Some (Raised AttributeError, w2)
         | (Returned (JsonDoc response), w2) \<Rightarrow>
             (case result_count response of
                Absent \<Rightarrow> Some (Raised TypeError, w2)
              | NotInteger \<Rightarrow> Some (Raised ValueError, w2)
              | Count total_result_count \<Rightarrow>
                  (case getitem_num (heap w2 p) ''retmax'' of
                     None \<Rightarrow> Some (Raised KeyError, w2)
                   | Some retmax \<Rightarrow>
                       split_or_return self_getArticleIds win response total_result_count
                         retmax w2)))"

text \<open>
  \<^verbatim>\<open>_getArticleIds\<close>. The recursion need not end, so the model counts the nested calls
  it may still make: \<open>None\<close> says that the count given was not enough.
\<close>

primrec getArticleIds ::
  "nat \<Rightarrow> server \<Rightarrow> string \<Rightarrow> int \<Rightarrow> int \<Rightarrow> window \<Rightarrow> world \<Rightarrow> (string list outcome \<times> world) option" where
  "getArticleIds 0 srv query max_results tmo win w = None"
| "getArticleIds (Suc depth) srv query max_results tmo win w =
     getArticleIds_body (getArticleIds depth srv query max_results tmo) srv query max_results
       tmo win w"

declare getArticleIds.simps(2) [simp del]

section \<open>Public operations\<close>

text \<open>\<^verbatim>\<open>query_publication_ids(query, max_results, timeout)\<close>\<close>

definition query_publication_ids ::
  "nat \<Rightarrow> server \<Rightarrow> string \<Rightarrow> int \<Rightarrow> int \<Rightarrow> world \<Rightarrow> (string list outcome \<times> world) option" where
  "query_publication_ids depth srv query max_results tmo w =
     getArticleIds depth srv query max_results tmo default_window w"

text \<open>\<^verbatim>\<open>query(query, max_results, timeout)\<close>, its chain consumed to the end.\<close>

definition query ::
  "nat \<Rightarrow> server \<Rightarrow> string \<Rightarrow> int \<Rightarrow> int \<Rightarrow> world \<Rightarrow> (publication list outcome \<times> world) option" where
  "query depth srv q max_results tmo w =
     (case getArticleIds depth srv q max_results tmo default_window w of
        None \<Rightarrow> None
      | Some (Spinning, w1) \<Rightarrow> Some (Spinning, w1)
      | Some (Raised e, w1) \<Rightarrow> Some (Raised e, w1)
      | Some (Returned article_ids, w1) \<Rightarrow>
          Some (apfst (map_outcome concat) (fetch_batches srv tmo (batches article_ids 250) w1)))"

text \<open>
  \<^verbatim>\<open>batch_query(query, batch_size, timeout)\<close>: the lists it yields, one for each batch,
  when the generator is run to its end.
\<close>

definition batch_query ::
  "nat \<Rightarrow> server \<Rightarrow> string \<Rightarrow> nat \<Rightarrow> int \<Rightarrow> world \<Rightarrow> (publication list list outcome \<times> world) option" where
  "batch_query depth srv q batch_size tmo w =
     (case getArticleIds depth srv q 10000000 tmo default_window w of
        None \<Rightarrow> None
      | Some (Spinning, w1) \<Rightarrow> Some (Spinning, w1)
      | Some (Raised e, w1) \<Rightarrow> Some (Raised e, w1)
      | Some (Returned article_ids, w1) \<Rightarrow>
          Some (fetch_batches srv tmo (batches article_ids batch_size) w1))"

text \<open>\<^verbatim>\<open>getTotalResultsCount(query, timeout)\<close>\<close>

definition getTotalResultsCount :: "server \<Rightarrow> string \<Rightarrow> int \<Rightarrow> world \<Rightarrow> int outcome \<times> world" where
  "getTotalResultsCount srv q tmo w =
     (let (p, w0) = copy_parameters w;
          w1 = setitem p ''retmax'' (Num 1) (setitem p ''term'' (Str q) w0)
      in case get srv ''/entrez/eutils/esearch.fcgi'' p ''json'' tmo w1 of
           (Spinning, w2) \<Rightarrow> (Spinning, w2)
         | (Raised e, w2) \<Rightarrow> (Raised e, w2)
         | (Returned (TextDoc t), w2) \<Rightarrow> (Raised AttributeError, w2)
         | (Returned (JsonDoc response), w2) \<Rightarrow>
             (case result_count response of
                Absent \<Rightarrow> (Raised TypeError, w2)
              | NotInteger \<Rightarrow> (Raised ValueError, w2)
              | Count total_results_count \<Rightarrow> (Returned total_results_count, w2)))"

section \<open>Requests and states named\<close>

text \<open>The request \<^verbatim>\<open>_get\<close> sends when the caller's dictionary holds \<open>ps\<close>.\<close>

definition request_of :: "string \<Rightarrow> string \<Rightarrow> int \<Rightarrow> params \<Rightarrow> request" where
  "request_of u output tmo ps =
     \<lparr>url = BASE_URL @ u, params = AList.update ''retmode'' (Str output) ps, timeout = tmo\<rparr>"

text \<open>
  The state once \<^verbatim>\<open>_get\<close> has been admitted with limiter \<open>l\<close> and has sent \<open>rq\<close> from the
  dictionary at \<open>p\<close>.
\<close>

definition requested :: "limiter \<Rightarrow> nat \<Rightarrow> request \<Rightarrow> world \<Rightarrow> world" where
  "requested l p rq w = w\<lparr>limiter := l, heap := (heap w)(p := params rq), sent := sent w @ [rq]\<rparr>"

text \<open>The effective \<^verbatim>\<open>retmax\<close> of lines 259 to 265.\<close>

definition retmax_of :: "int \<Rightarrow> int" where
  "retmax_of max_results = (if max_results < 10000 then max_results else 10000)"

text \<open>The search request \<^verbatim>\<open>_getArticleIds\<close> sends for a window.\<close>

definition search_request :: "string \<Rightarrow> int \<Rightarrow> int \<Rightarrow> window \<Rightarrow> world \<Rightarrow> request" where
  "search_request q max_results tmo win w =
     request_of ''/entrez/eutils/esearch.fcgi'' ''json'' tmo
       (search_parameters (heap w (parameters w)) q max_results win)"

text \<open>A new dictionary \<open>ps\<close> at the next free address.\<close>

definition allocated :: "params \<Rightarrow> world \<Rightarrow> world" where
  "allocated ps w = w\<lparr>heap := (heap w)(next_addr w := ps), next_addr := Suc (next_addr w)\<rparr>"

text \<open>
  The state after a request built on a fresh dictionary was admitted with limiter \<open>l\<close>,
  sent as \<open>rq\<close>, answered and logged; \<open>refused\<close> is the state when it failed instead.
\<close>

definition searched :: "limiter \<Rightarrow> request \<Rightarrow> world \<Rightarrow> world" where
  "searched l rq w = (requested l (next_addr w) rq (allocated [] w))\<lparr>limiter := record_request l\<rparr>"

definition refused :: "limiter \<Rightarrow> request \<Rightarrow> world \<Rightarrow> world" where
  "refused l rq w = requested l (next_addr w) rq (allocated [] w)"

section \<open>Concrete clocks, servers and clients\<close>

text \<open>A clock whose successive readings are one second apart.\<close>

definition steady_clock :: "nat \<Rightarrow> time" where
  "steady_clock k = 1000000 * int k"

text \<open>A clock whose successive readings are one millisecond apart.\<close>

definition quick_clock :: "nat \<Rightarrow> time" where
  "quick_clock k = 1000 * int k"

text \<open>Servers: one that gives the same body every time, one whose first answer differs
  from the later ones, and one that fails every time.\<close>

definition always :: "body \<Rightarrow> server" where
  "always b hist rq = Replied b"

definition first_then :: "body \<Rightarrow> body \<Rightarrow> server" where
  "first_then b1 b2 hist rq = Replied (if hist = [] then b1 else b2)"

definition unavailable :: server where
  "unavailable hist rq = Failed"

text \<open>A search answer with a count and an id list.\<close>

definition counted :: "int \<Rightarrow> string list \<Rightarrow> body" where
  "counted n ids = \<lparr>json = Some \<lparr>result_count = Count n, idlist = Some ids\<rparr>, xml_text = None\<rparr>"

definition client0 :: world where
  "client0 = PubMed_init ''my_tool'' ''my_email@example.com'' steady_clock"

definition year2020 :: window where
  "year2020 =
     \<lparr>min_year = 2020, max_year = 2020, min_month = 1, max_month = 12, min_day = 1, max_day = 31\<rparr>"

text \<open>
  On the steady clock every logged timestamp is at least a second old at the next
  admission check, once it is so at the current reading; \<open>rested\<close> is the limiter after
  such a check.
\<close>

definition calm :: "world \<Rightarrow> bool" where
  "calm w \<longleftrightarrow>
     clock (limiter w) = steady_clock \<and> 0 \<le> rateLimit (limiter w) \<and>
     list_all (\<lambda>r. r + 1000000 \<le> steady_clock (ticks (limiter w))) (requestsMade (limiter w))"

definition rested :: "limiter \<Rightarrow> limiter" where
  "rested l = l\<lparr>requestsMade := [], ticks := ticks l + length (requestsMade l)\<rparr>"

definition ids_of :: "esearchresult \<Rightarrow> string list" where
  "ids_of response = (case idlist response of None \<Rightarrow> [] | Some ids \<Rightarrow> ids)"

text \<open>A window \<open>c\<close> whose years are in order and span less than those of \<open>win\<close>.\<close>

definition narrower :: "window \<Rightarrow> window \<Rightarrow> bool" where
  "narrower win c \<longleftrightarrow>
     min_year c \<le> max_year c \<and> max_year c - min_year c < max_year win - min_year win"

text \<open>A client on the quick clock, and a number of \<^verbatim>\<open>getTotalResultsCount\<close> calls in a row.\<close>

definition client1 :: world where
  "client1 = PubMed_init ''my_tool'' ''my_email@example.com'' quick_clock"

fun counts_in_a_row :: "nat \<Rightarrow> server \<Rightarrow> world \<Rightarrow> world" where
  "counts_in_a_row 0 srv w = w"
| "counts_in_a_row (Suc n) srv w = snd (getTotalResultsCount srv ''q'' 10 (counts_in_a_row n srv w))"

text \<open>The default parameter dictionary of the client.\<close>

definition defaults :: "world \<Rightarrow> params" where
  "defaults w = heap w (parameters w)"

section \<open>Payloads\<close>

text \<open>The elements of a payload in document order: an element before its children.\<close>

fun preorder :: "element \<Rightarrow> element list" where
  "preorder (Element tg cs) = Element tg cs # concat (map preorder cs)"

text \<open>The fetch request \<^verbatim>\<open>_getArticles\<close> sends for a batch of ids.\<close>

definition fetch_request :: "string list \<Rightarrow> int \<Rightarrow> world \<Rightarrow> request" where
  "fetch_request article_ids tmo w =
     request_of ''/entrez/eutils/efetch.fcgi'' ''xml'' tmo
       (AList.update ''id'' (Ids article_ids) (defaults w))"

text \<open>
  A fetch endpoint that returns the same records for the same ids: whenever it answers
  a request for a batch of ids with a well-formed payload, the records of the payload
  are those of the ids of the batch, \<open>recs i\<close> for the id \<open>i\<close>.
\<close>

definition answers_per_id :: "server \<Rightarrow> (string \<Rightarrow> publication multiset) \<Rightarrow> bool" where
  "answers_per_id srv recs \<longleftrightarrow>
     (\<forall>hist rq ids b tree.
        map_of (params rq) ''id'' = Some (Ids ids) \<longrightarrow> srv hist rq = Replied b \<longrightarrow>
        xml_text b = Some tree \<longrightarrow>
        mset (publications tree) = (\<Sum>i\<in>#mset ids. recs i))"

text \<open>A fetch endpoint with one journal article for each id asked for, in the order asked.\<close>

definition article_of :: "string \<Rightarrow> element" where
  "article_of i = Element ''PubmedArticle'' [Element (''PMID '' @ i) [] ]"

definition echo :: server where
  "echo hist rq =
     (case map_of (params rq) ''id'' of
        Some (Ids ids) \<Rightarrow>
          Replied \<lparr>json = None, xml_text = Some (Element ''PubmedArticleSet'' (map article_of ids))\<rparr>
      | _ \<Rightarrow> Failed)"

definition one_article :: "string \<Rightarrow> publication multiset" where
  "one_article i = {#PubMedArticle (article_of i)#}"

text \<open>A payload in which a book comes before a journal article.\<close>

definition book_first :: element where
  "book_first =
     Element ''PubmedArticleSet''
       [Element ''PubmedBookArticle'' [Element ''BookDocument'' [] ],
        Element ''PubmedArticle'' [Element ''MedlineCitation'' [] ] ]"

section \<open>Dictionaries left alone\<close>

text \<open>
  \<open>w'\<close> extends \<open>w\<close>: \<^verbatim>\<open>self.parameters\<close> is the same object, and every dictionary that
  existed in \<open>w\<close> has in \<open>w'\<close> the items it had.
\<close>

definition extends :: "world \<Rightarrow> world \<Rightarrow> bool" where
  "extends w w' \<longleftrightarrow>
     parameters w' = parameters w \<and> next_addr w \<le> next_addr w' \<and>
     (\<forall>a<next_addr w. heap w' a = heap w a)"

text \<open>A body that reads as a search answer and as a payload.\<close>

definition two_faced :: body where
  "two_faced = \<lparr>json = Some \<lparr>result_count = Count 1, idlist = Some [''7'']\<rparr>,
                xml_text = Some book_first\<rparr>"

text \<open>The client on the steady clock after one successful request, logged at time 0.\<close>

definition after_one_request :: world where
  "after_one_request = counts_in_a_row (Suc 0) (always (counted 1 [''1''])) client0"

section \<open>The rate limiter and requests\<close>

lemma length_recent: "length (recent ck k xs) \<le> length xs"
  by (induction xs arbitrary: k) (auto simp: le_SucI)

lemma set_recent: "set (recent ck k xs) \<subseteq> set xs"
  by (induction xs arbitrary: k) auto

lemma admit_at_once: "\<not> fst (exceededRateLimit l) \<Longrightarrow> admit l = Some (snd (exceededRateLimit l))"
  by (subst admit.simps) simp

lemma admit_step: "fst (exceededRateLimit l) \<Longrightarrow> admit l = admit (snd (exceededRateLimit l))"
  by (subst admit.simps) simp

lemma admit_below:
  assumes "admit l = Some l'"
  shows "int (length (requestsMade l')) \<le> rateLimit l'"
proof (rule admit.raw_induct [where P = "\<lambda>x y. int (length (requestsMade y)) \<le> rateLimit y", OF _ assms])
  fix f x y
  assume IH: "\<And>x y. f x = Some y \<Longrightarrow> int (length (requestsMade y)) \<le> rateLimit y"
    and eq: "(if fst (exceededRateLimit x) then f (snd (exceededRateLimit x))
              else Some (snd (exceededRateLimit x))) = Some y"
  show "int (length (requestsMade y)) \<le> rateLimit y"
  proof (cases "fst (exceededRateLimit x)")
    case True
    with eq IH show ?thesis by simp
  next
    case False
    with eq have "y = snd (exceededRateLimit x)" by simp
    with False show ?thesis by (simp add: exceededRateLimit_def Let_def)
  qed
qed

lemma exceededRateLimit_frame:
  "rateLimit (snd (exceededRateLimit l)) = rateLimit l"
  "clock (snd (exceededRateLimit l)) = clock l"
  "set (requestsMade (snd (exceededRateLimit l))) \<subseteq> set (requestsMade l)"
  "length (requestsMade (snd (exceededRateLimit l))) \<le> length (requestsMade l)"
  using set_recent [of "clock l" "ticks l" "requestsMade l"]
    length_recent [of "clock l" "ticks l" "requestsMade l"]
  by (simp_all add: exceededRateLimit_def Let_def)

lemma admit_frame:
  assumes "admit l = Some l'"
  shows "rateLimit l' = rateLimit l \<and> clock l' = clock l
     \<and> set (requestsMade l') \<subseteq> set (requestsMade l)
     \<and> length (requestsMade l') \<le> length (requestsMade l)"
proof (rule admit.raw_induct [where P = "\<lambda>x y. rateLimit y = rateLimit x \<and> clock y = clock x
     \<and> set (requestsMade y) \<subseteq> set (requestsMade x)
     \<and> length (requestsMade y) \<le> length (requestsMade x)", OF _ assms])
  fix f x y
  assume IH: "\<And>x y. f x = Some y \<Longrightarrow> rateLimit y = rateLimit x \<and> clock y = clock x
     \<and> set (requestsMade y) \<subseteq> set (requestsMade x)
     \<and> length (requestsMade y) \<le> length (requestsMade x)"
    and eq: "(if fst (exceededRateLimit x) then f (snd (exceededRateLimit x))
              else Some (snd (exceededRateLimit x))) = Some y"
  show "rateLimit y = rateLimit x \<and> clock y = clock x
     \<and> set (requestsMade y) \<subseteq> set (requestsMade x)
     \<and> length (requestsMade y) \<le> length (requestsMade x)"
  proof (cases "fst (exceededRateLimit x)")
    case True
    with eq have "f (snd (exceededRateLimit x)) = Some y" by simp
    from IH [OF this] exceededRateLimit_frame [of x] show ?thesis by auto
  next
    case False
    with eq have "y = snd (exceededRateLimit x)" by simp
    with exceededRateLimit_frame [of x] show ?thesis by simp
  qed
qed

lemma get_spinning: "admit (limiter w) = None \<Longrightarrow> get srv u p output tmo w = (Spinning, w)"
  by (simp add: get_def)

lemma get_failed:
  "admit (limiter w) = Some l \<Longrightarrow> srv (sent w) (request_of u output tmo (heap w p)) = Failed \<Longrightarrow>
   get srv u p output tmo w = (Raised HTTPError, requested l p (request_of u output tmo (heap w p)) w)"
  by (simp add: get_def setitem_def request_of_def requested_def Let_def)

lemma get_replied:
  "admit (limiter w) = Some l \<Longrightarrow> srv (sent w) (request_of u output tmo (heap w p)) = Replied b \<Longrightarrow>
   get srv u p output tmo w =
     ((if output = ''json''
       then (case json b of None \<Rightarrow> Raised JSONDecodeError | Some j \<Rightarrow> Returned (JsonDoc j))
       else Returned (TextDoc (xml_text b))),
      (requested l p (request_of u output tmo (heap w p)) w)\<lparr>limiter := record_request l\<rparr>)"
  by (simp add: get_def setitem_def request_of_def requested_def Let_def split: option.splits)


lemma getitem_retmax:
  "getitem_num (AList.update ''retmode'' v (search_parameters d q max_results win)) ''retmax''
     = Some (retmax_of max_results)"
  by (simp add: getitem_num_def search_parameters_def retmax_of_def Let_def update_conv')

lemma requested_allocated [simp]:
  "limiter (requested l p rq w) = l"
  "sent (requested l p rq w) = sent w @ [rq]"
  "parameters (requested l p rq w) = parameters w"
  "next_addr (requested l p rq w) = next_addr w"
  "heap (requested l p rq w) = (heap w)(p := params rq)"
  "limiter (allocated ps w) = limiter w"
  "sent (allocated ps w) = sent w"
  "parameters (allocated ps w) = parameters w"
  "next_addr (allocated ps w) = Suc (next_addr w)"
  "heap (allocated ps w) = (heap w)(next_addr w := ps)"
  by (simp_all add: requested_def allocated_def)

lemma searched_simps [simp]:
  "limiter (searched l rq w) = record_request l"
  "sent (searched l rq w) = sent w @ [rq]"
  "parameters (searched l rq w) = parameters w"
  "next_addr (searched l rq w) = Suc (next_addr w)"
  "heap (searched l rq w) = (heap w)(next_addr w := params rq)"
  by (simp_all add: searched_def fun_eq_iff)

lemma world_eqI:
  "tool a = tool b \<Longrightarrow> email a = email b \<Longrightarrow> limiter a = limiter b \<Longrightarrow> parameters a = parameters b
   \<Longrightarrow> heap a = heap b \<Longrightarrow> next_addr a = next_addr b \<Longrightarrow> sent a = sent b
   \<Longrightarrow> world.more a = world.more b \<Longrightarrow> a = b"
  by (cases a, cases b) simp

lemma body_prepare:
  "getArticleIds_body rec srv q max_results tmo win w =
     (case get srv ''/entrez/eutils/esearch.fcgi'' (next_addr w) ''json'' tmo
             (allocated (search_parameters (heap w (parameters w)) q max_results win) w) of
        (Spinning, w2) \<Rightarrow> Some (Spinning, w2)
      | (Raised e, w2) \<Rightarrow> Some (Raised e, w2)
      | (Returned (TextDoc t), w2) \<Rightarrow> Some (Raised AttributeError, w2)
      | (Returned (JsonDoc response), w2) \<Rightarrow>
          (case result_count response of
             Absent \<Rightarrow> Some (Raised TypeError, w2)
           | NotInteger \<Rightarrow> Some (Raised ValueError, w2)
           | Count total_result_count \<Rightarrow>
               (case getitem_num (heap w2 (next_addr w)) ''retmax'' of
                  None \<Rightarrow> Some (Raised KeyError, w2)
                | Some retmax \<Rightarrow>
                    split_or_return rec win response total_result_count retmax w2)))"
proof -
  have a: "\<And>ps. allocated ps w
             = w\<lparr>next_addr := Suc (next_addr w), heap := (heap w)(next_addr w := ps)\<rparr>"
    by (rule world_eqI) (simp_all add: allocated_def)
  show ?thesis
    by (simp add: getArticleIds_body_def copy_parameters_def Let_def a)
qed


lemma body_replied:
  assumes "admit (limiter w) = Some l"
    and "srv (sent w) (search_request q max_results tmo win w) = Replied b"
    and "json b = Some response"
    and "result_count response = Count total_result_count"
  shows "getArticleIds_body rec srv q max_results tmo win w =
           split_or_return rec win response total_result_count (retmax_of max_results)
             (searched l (search_request q max_results tmo win w) w)"
proof -
  let ?ps = "search_parameters (heap w (parameters w)) q max_results win"
  let ?w1 = "allocated ?ps w"
  let ?rq = "search_request q max_results tmo win w"
  have rq: "request_of ''/entrez/eutils/esearch.fcgi'' ''json'' tmo (heap ?w1 (next_addr w)) = ?rq"
    by (simp add: search_request_def)
  have g: "get srv ''/entrez/eutils/esearch.fcgi'' (next_addr w) ''json'' tmo ?w1 =
        (Returned (JsonDoc response), (requested l (next_addr w) ?rq ?w1)\<lparr>limiter := record_request l\<rparr>)"
    using get_replied [of ?w1 l srv "''/entrez/eutils/esearch.fcgi''" "''json''" tmo "next_addr w" b]
      assms rq by simp
  have w2: "(requested l (next_addr w) ?rq ?w1)\<lparr>limiter := record_request l\<rparr> = searched l ?rq w"
    by (rule world_eqI) (simp_all add: requested_def allocated_def searched_def)
  have r: "getitem_num (params ?rq) ''retmax'' = Some (retmax_of max_results)"
    by (simp add: search_request_def request_of_def getitem_retmax)
  show ?thesis
    by (simp add: body_prepare g w2 r assms)
qed

lemma split_within:
  "total_result_count \<le> retmax \<Longrightarrow>
   split_or_return rec win response total_result_count retmax w =
     Some (Returned (case idlist response of None \<Rightarrow> [] | Some ids \<Rightarrow> ids), w)"
  by (simp add: split_or_return_def)

lemma split_single_year:
  "retmax < total_result_count \<Longrightarrow> retmax \<noteq> 0 \<Longrightarrow> min_year win = max_year win \<Longrightarrow>
   split_or_return rec win response total_result_count retmax w = Some (Returned [], w)"
  by (simp add: split_or_return_def)

lemma split_zero_retmax:
  "0 < total_result_count \<Longrightarrow>
   split_or_return rec win response total_result_count 0 w = Some (Raised ZeroDivisionError, w)"
  by (simp add: split_or_return_def)

lemma split_years:
  "retmax < total_result_count \<Longrightarrow> retmax \<noteq> 0 \<Longrightarrow> min_year win \<noteq> max_year win \<Longrightarrow>
   total_result_count div retmax + 1 \<noteq> 0 \<Longrightarrow>
   split_or_return rec win response total_result_count retmax w =
     collect rec (year_calls win (total_result_count div retmax + 1)) [] w"
  by (simp add: split_or_return_def Let_def)

section \<open>Resolving ids: one call\<close>

lemma recent_old:
  "\<forall>r\<in>set xs. r + 1000000 \<le> steady_clock k \<Longrightarrow> recent steady_clock k xs = []"
proof (induction xs arbitrary: k)
  case Nil
  then show ?case by simp
next
  case (Cons x xs)
  have "steady_clock k \<le> steady_clock (Suc k)" by (simp add: steady_clock_def)
  with Cons.prems have "\<forall>r\<in>set xs. r + 1000000 \<le> steady_clock (Suc k)" by fastforce
  with Cons.IH have "recent steady_clock (Suc k) xs = []" by blast
  with Cons.prems show ?case by simp
qed

lemma admit_calm: "calm w \<Longrightarrow> admit (limiter w) = Some (rested (limiter w))"
proof -
  assume c: "calm w"
  then have r: "recent steady_clock (ticks (limiter w)) (requestsMade (limiter w)) = []"
    using recent_old [of "requestsMade (limiter w)" "ticks (limiter w)"]
    by (simp add: calm_def list_all_iff)
  have e: "exceededRateLimit (limiter w) = (False, rested (limiter w))"
    using c by (simp add: exceededRateLimit_def Let_def r rested_def calm_def)
  show ?thesis using admit_at_once [of "limiter w"] e by simp
qed

lemma calm_searched: "calm w \<Longrightarrow> calm (searched (rested (limiter w)) rq w)"
  by (simp add: calm_def rested_def record_request_def steady_clock_def)

lemma calm_client0: "calm client0"
  by (simp add: calm_def client0_def PubMed_init_def)

lemma getArticleIds_within:
  assumes "admit (limiter w) = Some l"
    and "srv (sent w) (search_request q max_results tmo win w) = Replied b"
    and "json b = Some response"
    and "result_count response = Count total_result_count"
    and "total_result_count \<le> retmax_of max_results"
  shows "getArticleIds (Suc depth) srv q max_results tmo win w =
           Some (Returned (ids_of response), searched l (search_request q max_results tmo win w) w)"
  using assms by (simp add: getArticleIds.simps(2) body_replied split_within ids_of_def)

lemma year_calls_2: "year_calls default_window 2 =
  [default_window\<lparr>max_year := 2000\<rparr>, default_window\<lparr>min_year := 2001\<rparr>, default_window\<lparr>min_year := 3000\<rparr>]"
  by (simp add: year_calls_def default_window_def Let_def truediv_def upt_rec)

lemma sent_client0: "sent client0 = []"
  by (simp add: client0_def PubMed_init_def)

lemma getArticleIds_single_year:
  assumes "admit (limiter w) = Some l"
    and "srv (sent w) (search_request q max_results tmo win w) = Replied b"
    and "json b = Some response"
    and "result_count response = Count total_result_count"
    and "retmax_of max_results < total_result_count"
    and "retmax_of max_results \<noteq> 0"
    and "min_year win = max_year win"
  shows "getArticleIds (Suc depth) srv q max_results tmo win w =
           Some (Returned [], searched l (search_request q max_results tmo win w) w)"
  using assms by (simp add: getArticleIds.simps(2) body_replied split_single_year)

text \<open>
  C2, as the code has it: the count is compared with the effective \<^verbatim>\<open>retmax\<close>, the
  smaller of \<^verbatim>\<open>max_results\<close> and 10000. When the admission loop ends and the server
  reports a count of at most that, \<^verbatim>\<open>_getArticleIds\<close> sends exactly one search request
  and returns the id list of its response as it is.
\<close>

theorem single_call_within_retmax:
  assumes "admit (limiter w) = Some l"
    and "srv (sent w) (search_request q max_results tmo win w) = Replied b"
    and "json b = Some response"
    and "result_count response = Count total_result_count"
    and "total_result_count \<le> retmax_of max_results"
  shows "getArticleIds (Suc depth) srv q max_results tmo win w =
           Some (Returned (ids_of response), searched l (search_request q max_results tmo win w) w)
         \<and> sent (searched l (search_request q max_results tmo win w) w)
             = sent w @ [search_request q max_results tmo win w]"
  using assms by (simp add: getArticleIds_within)

theorem single_call_within_retmax_witness:
  "admit (limiter client0) = Some (rested (limiter client0))
   \<and> always (counted 2 [''31'', ''32'']) (sent client0)
        (search_request ''q'' 100 10 default_window client0) = Replied (counted 2 [''31'', ''32''])
   \<and> json (counted 2 [''31'', ''32'']) = Some \<lparr>result_count = Count 2, idlist = Some [''31'', ''32'']\<rparr>
   \<and> result_count \<lparr>result_count = Count 2, idlist = Some [''31'', ''32'']\<rparr> = Count 2
   \<and> (2::int) \<le> retmax_of 100
   \<and> getArticleIds (Suc 0) (always (counted 2 [''31'', ''32''])) ''q'' 100 10 default_window client0
       = Some (Returned [''31'', ''32''],
               searched (rested (limiter client0))
                 (search_request ''q'' 100 10 default_window client0) client0)
   \<and> sent (searched (rested (limiter client0))
              (search_request ''q'' 100 10 default_window client0) client0)
       = sent client0 @ [search_request ''q'' 100 10 default_window client0]"
proof -
  have h1: "admit (limiter client0) = Some (rested (limiter client0))"
    by (rule admit_calm [OF calm_client0])
  have h2: "always (counted 2 [''31'', ''32'']) (sent client0)
        (search_request ''q'' 100 10 default_window client0) = Replied (counted 2 [''31'', ''32''])"
    by (simp add: always_def)
  have h3: "json (counted 2 [''31'', ''32''])
        = Some \<lparr>result_count = Count 2, idlist = Some [''31'', ''32'']\<rparr>"
    by (simp add: counted_def)
  have h4: "result_count \<lparr>result_count = Count 2, idlist = Some [''31'', ''32'']\<rparr> = Count 2"
    by simp
  have h5: "(2::int) \<le> retmax_of 100"
    by (simp add: retmax_of_def)
  have i: "ids_of \<lparr>result_count = Count 2, idlist = Some [''31'', ''32'']\<rparr> = [''31'', ''32'']"
    by (simp add: ids_of_def)
  from single_call_within_retmax
         [where srv = "always (counted 2 [''31'', ''32''])" and w = client0 and depth = 0,
          OF h1 h2 h3 h4 h5] h1 h2 h3 h4 h5 i
  show ?thesis by simp
qed

lemma leaf_step:
  assumes "calm w" and "sent w \<noteq> []" and "n \<le> retmax_of max_results"
  shows "getArticleIds (Suc 0) (first_then b1 (counted n ids)) q max_results tmo win w =
           Some (Returned ids, searched (rested (limiter w)) (search_request q max_results tmo win w) w)"
proof -
  let ?j = "\<lparr>result_count = Count n, idlist = Some ids\<rparr>"
  have a: "first_then b1 (counted n ids) (sent w) (search_request q max_results tmo win w)
             = Replied (counted n ids)"
    using assms(2) by (simp add: first_then_def)
  have b: "json (counted n ids) = Some ?j"
    by (simp add: counted_def)
  have c: "result_count ?j = Count n"
    by simp
  have "getArticleIds (Suc 0) (first_then b1 (counted n ids)) q max_results tmo win w =
      Some (Returned (ids_of ?j),
            searched (rested (limiter w)) (search_request q max_results tmo win w) w)"
    using getArticleIds_within
      [where srv = "first_then b1 (counted n ids)", OF admit_calm [OF assms(1)] a b c assms(3)] .
  then show ?thesis by (simp add: ids_of_def)
qed

lemma two_batch_run:
  assumes "retmax_of max_results < n1" and "retmax_of max_results \<noteq> 0"
    and "n1 div retmax_of max_results + 1 = 2" and "n2 \<le> retmax_of max_results"
  shows "map_option (map_prod id (length \<circ> sent))
           (getArticleIds 2 (first_then (counted n1 ids1) (counted n2 ids)) q max_results tmo
              default_window client0)
         = Some (Returned (ids @ ids @ ids), 4)"
proof -
  let ?srv = "first_then (counted n1 ids1) (counted n2 ids)"
  let ?rec = "getArticleIds (Suc 0) ?srv q max_results tmo"
  let ?a = "default_window\<lparr>max_year := 2000\<rparr>"
  let ?b = "default_window\<lparr>min_year := 2001\<rparr>"
  let ?c = "default_window\<lparr>min_year := 3000\<rparr>"
  define w1 where "w1 = searched (rested (limiter client0))
                          (search_request q max_results tmo default_window client0) client0"
  define w2 where "w2 = searched (rested (limiter w1)) (search_request q max_results tmo ?a w1) w1"
  define w3 where "w3 = searched (rested (limiter w2)) (search_request q max_results tmo ?b w2) w2"
  define w4 where "w4 = searched (rested (limiter w3)) (search_request q max_results tmo ?c w3) w3"
  have c1: "calm w1" unfolding w1_def by (rule calm_searched [OF calm_client0])
  have c2: "calm w2" unfolding w2_def by (rule calm_searched [OF c1])
  have c3: "calm w3" unfolding w3_def by (rule calm_searched [OF c2])
  have s1: "sent w1 \<noteq> []" by (simp add: w1_def)
  have s2: "sent w2 \<noteq> []" by (simp add: w2_def)
  have s3: "sent w3 \<noteq> []" by (simp add: w3_def)
  have first: "?srv (sent client0) (search_request q max_results tmo default_window client0)
                 = Replied (counted n1 ids1)"
    by (simp add: first_then_def sent_client0)
  have j: "json (counted n1 ids1) = Some \<lparr>result_count = Count n1, idlist = Some ids1\<rparr>"
    by (simp add: counted_def)
  have n: "result_count \<lparr>result_count = Count n1, idlist = Some ids1\<rparr> = Count n1"
    by simp
  have top: "getArticleIds (Suc (Suc 0)) ?srv q max_results tmo default_window client0 =
      split_or_return ?rec default_window \<lparr>result_count = Count n1, idlist = Some ids1\<rparr>
        n1 (retmax_of max_results) w1"
    unfolding w1_def getArticleIds.simps(2)
    using body_replied [where srv = ?srv, OF admit_calm [OF calm_client0] first j n] .
  have years: "min_year default_window \<noteq> max_year default_window"
    by (simp add: default_window_def)
  have split: "split_or_return ?rec default_window \<lparr>result_count = Count n1, idlist = Some ids1\<rparr>
        n1 (retmax_of max_results) w1 = collect ?rec (year_calls default_window 2) [] w1"
    using split_years [of "retmax_of max_results" n1 default_window ?rec _ w1] assms years
    by simp
  have l1: "?rec ?a w1 = Some (Returned ids, w2)"
    unfolding w2_def by (rule leaf_step [OF c1 s1 assms(4)])
  have l2: "?rec ?b w2 = Some (Returned ids, w3)"
    unfolding w3_def by (rule leaf_step [OF c2 s2 assms(4)])
  have l3: "?rec ?c w3 = Some (Returned ids, w4)"
    unfolding w4_def by (rule leaf_step [OF c3 s3 assms(4)])
  have run: "collect ?rec (year_calls default_window 2) [] w1 = Some (Returned (ids @ ids @ ids), w4)"
    by (simp add: year_calls_2 l1 l2 l3)
  have len: "length (sent w4) = 4"
    by (simp add: w4_def w3_def w2_def w1_def sent_client0)
  show ?thesis
    by (simp add: numeral_2_eq_2 top split run len)
qed

theorem single_call_within_cap_counterexample:
  "map_option (map_prod id (length \<circ> sent))
     (getArticleIds 2 (first_then (counted 101 [''7'']) (counted 1 [''7''])) ''q'' 100 10
        default_window client0)
   = Some (Returned [''7'', ''7'', ''7''], 4)"
  using two_batch_run [where max_results = 100 and ?n1.0 = 101 and ?n2.0 = 1
      and ids = "[''7'']" and ?ids1.0 = "[''7'']" and q = "''q''" and tmo = 10]
  by (simp add: retmax_of_def)

lemma year2020_single: "min_year year2020 = max_year year2020"
  by (simp add: year2020_def)

lemma always_replies: "always b hist rq = Replied b"
  by (simp add: always_def)

lemma json_counted: "json (counted n ids) = Some \<lparr>result_count = Count n, idlist = Some ids\<rparr>"
  by (simp add: counted_def)

text \<open>
  C4, as the code has it: for every window of a single year whose reported count exceeds
  the effective \<^verbatim>\<open>retmax\<close>, and with that \<^verbatim>\<open>retmax\<close> not zero, \<^verbatim>\<open>_getArticleIds\<close>
  returns the empty list after its one search request, whatever the months and days of
  the window are. (With \<^verbatim>\<open>max_results = 0\<close> line 277 divides by zero.)
\<close>

theorem single_year_over_retmax_empty:
  assumes "admit (limiter w) = Some l"
    and "srv (sent w) (search_request q max_results tmo win w) = Replied b"
    and "json b = Some response"
    and "result_count response = Count total_result_count"
    and "retmax_of max_results < total_result_count"
    and "retmax_of max_results \<noteq> 0"
    and "min_year win = max_year win"
  shows "getArticleIds (Suc depth) srv q max_results tmo win w =
           Some (Returned [], searched l (search_request q max_results tmo win w) w)
         \<and> sent (searched l (search_request q max_results tmo win w) w)
             = sent w @ [search_request q max_results tmo win w]"
  using assms by (simp add: getArticleIds_single_year)

theorem single_year_over_retmax_empty_witness:
  "admit (limiter client0) = Some (rested (limiter client0))
   \<and> always (counted 15000 [''1'']) (sent client0) (search_request ''q'' 10000 10 year2020 client0)
       = Replied (counted 15000 [''1''])
   \<and> json (counted 15000 [''1'']) = Some \<lparr>result_count = Count 15000, idlist = Some [''1'']\<rparr>
   \<and> result_count \<lparr>result_count = Count 15000, idlist = Some [''1'']\<rparr> = Count 15000
   \<and> retmax_of 10000 < 15000
   \<and> retmax_of 10000 \<noteq> 0
   \<and> min_year year2020 = max_year year2020
   \<and> min_month year2020 \<noteq> max_month year2020
   \<and> getArticleIds (Suc 0) (always (counted 15000 [''1''])) ''q'' 10000 10 year2020 client0
       = Some (Returned [],
               searched (rested (limiter client0)) (search_request ''q'' 10000 10 year2020 client0)
                 client0)
   \<and> sent (searched (rested (limiter client0)) (search_request ''q'' 10000 10 year2020 client0)
              client0)
       = sent client0 @ [search_request ''q'' 10000 10 year2020 client0]"
proof -
  have h1: "admit (limiter client0) = Some (rested (limiter client0))"
    by (rule admit_calm [OF calm_client0])
  have h2: "always (counted 15000 [''1'']) (sent client0)
        (search_request ''q'' 10000 10 year2020 client0) = Replied (counted 15000 [''1''])"
    by (rule always_replies)
  have h3: "json (counted 15000 [''1''])
        = Some \<lparr>result_count = Count 15000, idlist = Some [''1'']\<rparr>"
    by (rule json_counted)
  have h4: "result_count \<lparr>result_count = Count 15000, idlist = Some [''1'']\<rparr> = Count 15000"
    by simp
  have h5: "retmax_of 10000 < 15000" and h6: "retmax_of 10000 \<noteq> 0"
    by (simp_all add: retmax_of_def)
  have m: "min_month year2020 \<noteq> max_month year2020"
    by (simp add: year2020_def)
  from single_year_over_retmax_empty
         [where srv = "always (counted 15000 [''1''])" and w = client0 and depth = 0,
          OF h1 h2 h3 h4 h5 h6 year2020_single] h1 h2 h3 h4 h5 h6 year2020_single m
  show ?thesis by simp
qed

theorem single_year_over_retmax_counterexample:
  "map_option fst (getArticleIds 1 (always (counted 5 [''1''])) ''q'' 0 10 year2020 client0)
     = Some (Raised ZeroDivisionError)"
proof -
  let ?w1 = "searched (rested (limiter client0)) (search_request ''q'' 0 10 year2020 client0) client0"
  have "getArticleIds (Suc 0) (always (counted 5 [''1''])) ''q'' 0 10 year2020 client0 =
      split_or_return (getArticleIds 0 (always (counted 5 [''1''])) ''q'' 0 10) year2020
        \<lparr>result_count = Count 5, idlist = Some [''1'']\<rparr> 5 (retmax_of 0) ?w1"
    unfolding getArticleIds.simps(2)
    by (rule body_replied [where b = "counted 5 [''1'']", OF admit_calm [OF calm_client0] ])
       (simp_all add: always_replies json_counted)
  then show ?thesis
    by (simp add: retmax_of_def split_zero_retmax)
qed

text \<open>
  C1, at a failing input: a window of the year 2020 with months 1 to 12, for which the
  server reports 15000 matches with \<^verbatim>\<open>retmax\<close> 10000. The guard of the month branch
  compares \<^verbatim>\<open>min_month\<close> with itself, so no month boundary is computed: the call makes
  no nested call (a nesting depth of one suffices), sends its one request and returns
  the empty list.
\<close>

theorem month_split_not_applied:
  "getArticleIds 1 (always (counted 15000 [''1''])) ''q'' 10000 10 year2020 client0
     = Some (Returned [],
             searched (rested (limiter client0)) (search_request ''q'' 10000 10 year2020 client0)
               client0)
   \<and> sent (searched (rested (limiter client0)) (search_request ''q'' 10000 10 year2020 client0)
             client0)
       = [search_request ''q'' 10000 10 year2020 client0]
   \<and> min_month year2020 = 1 \<and> max_month year2020 = 12"
proof -
  have "getArticleIds (Suc 0) (always (counted 15000 [''1''])) ''q'' 10000 10 year2020 client0
     = Some (Returned [],
             searched (rested (limiter client0)) (search_request ''q'' 10000 10 year2020 client0)
               client0)"
    using getArticleIds_single_year
          [where srv = "always (counted 15000 [''1''])" and depth = 0 and max_results = 10000,
           OF admit_calm [OF calm_client0] always_replies json_counted _ _ _ year2020_single]
    by (simp add: retmax_of_def)
  then show ?thesis
    by (simp add: sent_client0 year2020_def)
qed

section \<open>Resolving ids: the recursion\<close>

lemma year_step_bounds:
  fixes gap bc :: int
  assumes "0 < gap" and "2 \<le> bc"
  shows "0 \<le> gap div bc" and "gap div bc < gap"
proof -
  show "0 \<le> gap div bc" using assms by (simp add: pos_imp_zdiv_nonneg_iff)
  have "gap div bc \<le> gap div 2" using assms by (intro zdiv_mono2) auto
  also have "\<dots> < gap" using assms by linarith
  finally show "gap div bc < gap" .
qed

lemma year_calls_narrower:
  assumes "min_year win < max_year win" and "2 \<le> bc"
  shows "list_all (narrower win) (year_calls win bc)"
proof -
  let ?gap = "max_year win - min_year win"
  let ?step = "?gap div bc"
  have g: "0 < ?gap" using assms by simp
  have s0: "0 \<le> ?step" and s1: "?step < ?gap"
    using year_step_bounds [OF g assms(2)] by simp_all
  have "narrower win \<lparr>min_year = (if i = min_year win then i else i + 1), max_year = i + ?step,
                       min_month = 1, max_month = 12, min_day = 1, max_day = 31\<rparr>"
    if "i = min_year win + ?step * int k" for i k
  proof (cases "i = min_year win")
    case True
    with s0 s1 show ?thesis by (simp add: narrower_def)
  next
    case False
    with that have "?step \<noteq> 0" by auto
    with s0 have "1 \<le> ?step" by simp
    with False s1 show ?thesis by (simp add: narrower_def)
  qed
  moreover have "narrower win \<lparr>min_year = max_year win, max_year = max_year win,
                       min_month = 1, max_month = 12, min_day = 1, max_day = 31\<rparr>"
    using g by (simp add: narrower_def)
  ultimately show ?thesis
    by (auto simp: year_calls_def Let_def list_all_iff)
qed

lemma batch_count_ge_2:
  fixes retmax n_total :: int
  assumes "1 \<le> retmax" and "retmax < n_total"
  shows "2 \<le> n_total div retmax + 1"
proof -
  have "0 < n_total div retmax" using assms by (simp add: pos_imp_zdiv_pos_iff)
  then show ?thesis by simp
qed

lemma collect_None:
  "collect rec cs acc w = None \<Longrightarrow> \<exists>c\<in>set cs. \<exists>w'. rec c w' = None"
proof (induction cs arbitrary: acc w)
  case Nil
  then show ?case by simp
next
  case (Cons c cs)
  show ?case
  proof (cases "rec c w")
    case None
    then show ?thesis by auto
  next
    case (Some rw)
    obtain r w1 where rw: "rw = (r, w1)" by (cases rw)
    show ?thesis
    proof (cases r)
      case (Returned ids)
      with Some rw Cons.prems have "collect rec cs (acc @ ids) w1 = None" by simp
      from Cons.IH [OF this] show ?thesis by auto
    next
      case (Raised e)
      with Some rw Cons.prems show ?thesis by simp
    next
      case Spinning
      with Some rw Cons.prems show ?thesis by simp
    qed
  qed
qed

lemma split_None:
  assumes "split_or_return rec win response n_total retmax w = None"
  shows "retmax < n_total \<and> retmax \<noteq> 0 \<and> min_year win \<noteq> max_year win
         \<and> collect rec (year_calls win (n_total div retmax + 1)) [] w = None"
  using assms by (simp add: split_or_return_def Let_def split: if_splits)

lemma body_None:
  assumes "getArticleIds_body rec srv q max_results tmo win w = None"
  shows "\<exists>l response n_total.
           split_or_return rec win response n_total (retmax_of max_results)
             (searched l (search_request q max_results tmo win w) w) = None"
proof -
  let ?rq = "search_request q max_results tmo win w"
  let ?w1 = "allocated (search_parameters (heap w (parameters w)) q max_results win) w"
  have rq: "request_of ''/entrez/eutils/esearch.fcgi'' ''json'' tmo (heap ?w1 (next_addr w)) = ?rq"
    by (simp add: search_request_def)
  show ?thesis
  proof (cases "admit (limiter w)")
    case None
    then have "get srv ''/entrez/eutils/esearch.fcgi'' (next_addr w) ''json'' tmo ?w1 = (Spinning, ?w1)"
      by (simp add: get_spinning)
    with assms show ?thesis by (simp add: body_prepare)
  next
    case (Some l)
    then have l: "admit (limiter ?w1) = Some l" by simp
    show ?thesis
    proof (cases "srv (sent w) ?rq")
      case Failed
      then have "srv (sent ?w1) (request_of ''/entrez/eutils/esearch.fcgi'' ''json'' tmo
                   (heap ?w1 (next_addr w))) = Failed"
        by (simp add: search_request_def)
      from get_failed [where srv = srv, OF l this] assms show ?thesis by (simp add: body_prepare)
    next
      case (Replied b)
      show ?thesis
      proof (cases "json b")
        case None
        from Replied have "srv (sent ?w1) (request_of ''/entrez/eutils/esearch.fcgi'' ''json'' tmo
                   (heap ?w1 (next_addr w))) = Replied b"
          by (simp add: search_request_def)
        from get_replied [where srv = srv, OF l this] None assms show ?thesis by (simp add: body_prepare)
      next
        case (Some response)
        note j = this
        show ?thesis
        proof (cases "result_count response")
          case Absent
          from Replied have "srv (sent ?w1) (request_of ''/entrez/eutils/esearch.fcgi'' ''json'' tmo
                   (heap ?w1 (next_addr w))) = Replied b"
            by (simp add: search_request_def)
          from get_replied [where srv = srv, OF l this] j Absent assms show ?thesis
            by (simp add: body_prepare)
        next
          case NotInteger
          from Replied have "srv (sent ?w1) (request_of ''/entrez/eutils/esearch.fcgi'' ''json'' tmo
                   (heap ?w1 (next_addr w))) = Replied b"
            by (simp add: search_request_def)
          from get_replied [where srv = srv, OF l this] j NotInteger assms show ?thesis
            by (simp add: body_prepare)
        next
          case (Count n_total)
          from body_replied [where srv = srv and rec = rec, OF \<open>admit (limiter w) = Some l\<close> Replied j Count] assms
          have "split_or_return rec win response n_total (retmax_of max_results)
                  (searched l (search_request q max_results tmo win w) w) = None"
            by simp
          then show ?thesis by blast
        qed
      qed
    qed
  qed
qed

lemma getArticleIds_returns:
  assumes "0 \<le> max_results"
  shows "min_year win \<le> max_year win \<Longrightarrow> nat (max_year win - min_year win) < depth \<Longrightarrow>
         getArticleIds depth srv q max_results tmo win w \<noteq> None"
proof (induction depth arbitrary: win w)
  case 0
  then show ?case by simp
next
  case (Suc depth)
  show ?case
  proof
    assume "getArticleIds (Suc depth) srv q max_results tmo win w = None"
    then have "getArticleIds_body (getArticleIds depth srv q max_results tmo) srv q max_results
                 tmo win w = None"
      by (simp add: getArticleIds.simps(2))
    from body_None [OF this] obtain l response n_total where
      "split_or_return (getArticleIds depth srv q max_results tmo) win response n_total
         (retmax_of max_results) (searched l (search_request q max_results tmo win w) w) = None"
      by blast
    from split_None [OF this] have over: "retmax_of max_results < n_total"
      and nz: "retmax_of max_results \<noteq> 0"
      and years: "min_year win \<noteq> max_year win"
      and coll: "collect (getArticleIds depth srv q max_results tmo)
                   (year_calls win (n_total div retmax_of max_results + 1)) []
                   (searched l (search_request q max_results tmo win w) w) = None"
      by simp_all
    from assms nz have "1 \<le> retmax_of max_results" by (simp add: retmax_of_def split: if_splits)
    from batch_count_ge_2 [OF this over] have bc: "2 \<le> n_total div retmax_of max_results + 1" .
    from years Suc.prems have "min_year win < max_year win" by simp
    from year_calls_narrower [OF this bc]
    have narrow: "\<forall>c\<in>set (year_calls win (n_total div retmax_of max_results + 1)). narrower win c"
      by (simp add: list_all_iff)
    from collect_None [OF coll] obtain c w' where
      c: "c \<in> set (year_calls win (n_total div retmax_of max_results + 1))"
      and none: "getArticleIds depth srv q max_results tmo c w' = None"
      by blast
    from narrow c have "narrower win c" by blast
    with Suc.prems have "min_year c \<le> max_year c" "nat (max_year c - min_year c) < depth"
      unfolding narrower_def by linarith+
    from Suc.IH [OF this] none show False by blast
  qed
qed

text \<open>
  C3, as the code has it: for \<^verbatim>\<open>max_results\<close> of at least zero and a window whose years
  are in order, the recursion of \<^verbatim>\<open>_getArticleIds\<close> ends whatever the server answers: with
  a nesting depth above the number of years spanned the call returns, raises or stays in
  an admission loop. Whenever the year branch is taken, every recursive call is on a
  window whose years are in order and span strictly less than those of its parent.
\<close>

theorem year_recursion_terminates:
  assumes "0 \<le> max_results"
    and "min_year win \<le> max_year win"
    and "nat (max_year win - min_year win) < depth"
  shows "(\<exists>r. getArticleIds depth srv q max_results tmo win w = Some r)
         \<and> (retmax_of max_results < total_result_count \<and> retmax_of max_results \<noteq> 0
              \<and> min_year win \<noteq> max_year win
            \<longrightarrow> list_all (narrower win)
                  (year_calls win (total_result_count div retmax_of max_results + 1)))"
proof -
  have "getArticleIds depth srv q max_results tmo win w \<noteq> None"
    using assms by (rule getArticleIds_returns)
  moreover have "list_all (narrower win)
       (year_calls win (total_result_count div retmax_of max_results + 1))"
    if over: "retmax_of max_results < total_result_count"
      and nz: "retmax_of max_results \<noteq> 0" and years: "min_year win \<noteq> max_year win"
  proof -
    from assms(1) nz have "1 \<le> retmax_of max_results"
      by (simp add: retmax_of_def split: if_splits)
    then have "2 \<le> total_result_count div retmax_of max_results + 1"
      using over by (rule batch_count_ge_2)
    moreover from years assms(2) have "min_year win < max_year win" by simp
    ultimately show ?thesis by (rule year_calls_narrower [rotated])
  qed
  ultimately show ?thesis by auto
qed

theorem year_recursion_terminates_witness:
  "(0::int) \<le> 100
   \<and> min_year default_window \<le> max_year default_window
   \<and> nat (max_year default_window - min_year default_window) < 2001
   \<and> (\<exists>r. getArticleIds 2001 (always (counted 101 [''7''])) ''q'' 100 10 default_window client0
            = Some r)
   \<and> retmax_of 100 < 101 \<and> retmax_of 100 \<noteq> 0
   \<and> min_year default_window \<noteq> max_year default_window
   \<and> list_all (narrower default_window) (year_calls default_window (101 div retmax_of 100 + 1))"
proof -
  have h1: "(0::int) \<le> 100" by simp
  have h2: "min_year default_window \<le> max_year default_window"
    and h3: "nat (max_year default_window - min_year default_window) < 2001"
    and h5: "min_year default_window \<noteq> max_year default_window"
    by (simp_all add: default_window_def)
  have h4: "retmax_of 100 < 101" and h6: "retmax_of 100 \<noteq> 0"
    by (simp_all add: retmax_of_def)
  from year_recursion_terminates
         [where srv = "always (counted 101 [''7''])" and q = "''q''" and tmo = 10 and w = client0
            and total_result_count = 101, OF h1 h2 h3] h1 h2 h3 h4 h5 h6
  show ?thesis by simp
qed

lemma year_calls_1: "year_calls default_window 1 =
  [default_window, default_window\<lparr>min_year := 3000\<rparr>]"
  by (simp add: year_calls_def default_window_def Let_def truediv_def)

lemma no_return_when_count_zero:
  "calm w \<Longrightarrow> getArticleIds depth (always (counted 0 [])) q (- 1) tmo default_window w = None"
proof (induction depth arbitrary: w)
  case 0
  then show ?case by simp
next
  case (Suc depth)
  let ?srv = "always (counted 0 [])"
  let ?rec = "getArticleIds depth ?srv q (- 1) tmo"
  let ?w1 = "searched (rested (limiter w)) (search_request q (- 1) tmo default_window w) w"
  have n: "result_count \<lparr>result_count = Count 0, idlist = Some []\<rparr> = Count 0"
    by simp
  have "getArticleIds (Suc depth) ?srv q (- 1) tmo default_window w =
      split_or_return ?rec default_window \<lparr>result_count = Count 0, idlist = Some []\<rparr>
        0 (retmax_of (- 1)) ?w1"
    unfolding getArticleIds.simps(2)
    using body_replied [where srv = ?srv, OF admit_calm [OF Suc.prems] always_replies json_counted n] .
  also have "\<dots> = collect ?rec (year_calls default_window 1) [] ?w1"
    using split_years [of "retmax_of (- 1)" 0 default_window ?rec _ ?w1]
    by (simp add: retmax_of_def default_window_def)
  also have "\<dots> = None"
    using Suc.IH [OF calm_searched [OF Suc.prems] ] by (simp add: year_calls_1)
  finally show ?case .
qed

theorem year_recursion_counterexample:
  "\<not> (\<exists>depth r. getArticleIds depth (always (counted 0 [])) ''q'' (- 1) 10 default_window client0
                   = Some r)"
  using no_return_when_count_zero [OF calm_client0] by simp

text \<open>
  C5, at a failing input: the default window with a count of 15000 and \<^verbatim>\<open>retmax\<close>
  10000. The batch count is 2 and divides the span of 2000 years evenly, yet the call
  pinned to the year 3000 is made after the two of the loop: the quotient of \<^verbatim>\<open>/\<close> is a
  \<^verbatim>\<open>float\<close> in either case. With a server that reports 15000 first and one match
  afterwards, three nested calls answer and four requests are sent.
\<close>

theorem extra_call_without_remainder:
  "15000 div retmax_of 10000 + 1 = 2
   \<and> (max_year default_window - min_year default_window) mod 2 = 0
   \<and> year_calls default_window 2 =
       [default_window\<lparr>max_year := 2000\<rparr>, default_window\<lparr>min_year := 2001\<rparr>,
        default_window\<lparr>min_year := 3000, max_year := 3000\<rparr>]
   \<and> map_option (map_prod id (length \<circ> sent))
        (getArticleIds 2 (first_then (counted 15000 []) (counted 1 [''7''])) ''q'' 10000 10
           default_window client0)
       = Some (Returned [''7'', ''7'', ''7''], 4)"
proof -
  have "15000 div retmax_of 10000 + 1 = 2"
    by (simp add: retmax_of_def)
  moreover have "(max_year default_window - min_year default_window) mod 2 = 0"
    by (simp add: default_window_def)
  moreover have "year_calls default_window 2 =
       [default_window\<lparr>max_year := 2000\<rparr>, default_window\<lparr>min_year := 2001\<rparr>,
        default_window\<lparr>min_year := 3000, max_year := 3000\<rparr>]"
    by (simp add: year_calls_2) (simp add: default_window_def)
  moreover have "map_option (map_prod id (length \<circ> sent))
        (getArticleIds 2 (first_then (counted 15000 []) (counted 1 [''7''])) ''q'' 10000 10
           default_window client0)
       = Some (Returned [''7'', ''7'', ''7''], 4)"
    using two_batch_run [where max_results = 10000 and ?n1.0 = 15000 and ?n2.0 = 1
        and ids = "[''7'']" and ?ids1.0 = "[]" and q = "''q''" and tmo = 10]
    by (simp add: retmax_of_def)
  ultimately show ?thesis by blast
qed

section \<open>The rate limiter over several requests\<close>

lemma count_limiter:
  assumes "admit (limiter w) = Some l"
  shows "limiter (snd (getTotalResultsCount (always b) q tmo w)) = record_request l"
proof -
  let ?w1 = "setitem (next_addr w) ''retmax'' (Num 1)
               (setitem (next_addr w) ''term'' (Str q) (snd (copy_parameters w)))"
  have l: "admit (limiter ?w1) = Some l"
    using assms by (simp add: setitem_def copy_parameters_def)
  have "always b (sent ?w1) (request_of ''/entrez/eutils/esearch.fcgi'' ''json'' tmo
          (heap ?w1 (next_addr w))) = Replied b"
    by (rule always_replies)
  from get_replied [where srv = "always b", OF l this]
  show ?thesis
    by (simp add: getTotalResultsCount_def copy_parameters_def Let_def
          split: option.splits payload.splits outcome.splits count_field.splits)
qed

lemma count_step:
  assumes "limiter (counts_in_a_row n (always b) w) = l0"
    and "exceededRateLimit l0 = (False, l1)"
  shows "limiter (counts_in_a_row (Suc n) (always b) w) = record_request l1"
proof -
  from assms have "admit (limiter (counts_in_a_row n (always b) w)) = Some l1"
    using admit_at_once [of l0] by simp
  then show ?thesis by (simp add: count_limiter)
qed

lemma limiter_client1:
  "limiter client1 = \<lparr>rateLimit = 3, requestsMade = [], clock = quick_clock, ticks = 0\<rparr>"
  by (simp add: client1_def PubMed_init_def)

lemma admitted_log_bound:
  assumes "admit l = Some l'"
  shows "int (length (requestsMade (record_request l'))) \<le> rateLimit l' + 1"
  using admit_below [OF assms] by (simp add: record_request_def)

text \<open>
  C6, at a failing input: four requests in a row on a clock whose readings are a
  millisecond apart. Each is admitted, the fourth with three timestamps in the log, and
  at the admission check of a fifth the pruned log holds four timestamps, all within
  nine milliseconds, against a ceiling of three.
\<close>

theorem four_requests_within_a_second:
  "exceededRateLimit (limiter (counts_in_a_row 4 (always (counted 1 [''1''])) client1))
     = (True, \<lparr>rateLimit = 3, requestsMade = [0, 2000, 5000, 9000], clock = quick_clock,
                ticks = 14\<rparr>)"
proof -
  let ?srv = "always (counted 1 [''1''])"
  have l0: "limiter (counts_in_a_row 0 ?srv client1)
              = \<lparr>rateLimit = 3, requestsMade = [], clock = quick_clock, ticks = 0\<rparr>"
    by (simp add: limiter_client1)
  have l1: "limiter (counts_in_a_row (Suc 0) ?srv client1)
              = \<lparr>rateLimit = 3, requestsMade = [0], clock = quick_clock, ticks = 1\<rparr>"
    using count_step [OF l0, of "\<lparr>rateLimit = 3, requestsMade = [], clock = quick_clock, ticks = 0\<rparr>"]
    by (simp add: exceededRateLimit_def record_request_def quick_clock_def)
  have l2: "limiter (counts_in_a_row (Suc (Suc 0)) ?srv client1)
              = \<lparr>rateLimit = 3, requestsMade = [0, 2000], clock = quick_clock, ticks = 3\<rparr>"
    using count_step [OF l1, of "\<lparr>rateLimit = 3, requestsMade = [0], clock = quick_clock, ticks = 2\<rparr>"]
    by (simp add: exceededRateLimit_def record_request_def quick_clock_def)
  have l3: "limiter (counts_in_a_row (Suc (Suc (Suc 0))) ?srv client1)
              = \<lparr>rateLimit = 3, requestsMade = [0, 2000, 5000], clock = quick_clock, ticks = 6\<rparr>"
    using count_step [OF l2, of "\<lparr>rateLimit = 3, requestsMade = [0, 2000], clock = quick_clock, ticks = 5\<rparr>"]
    by (simp add: exceededRateLimit_def record_request_def quick_clock_def)
  have l4: "limiter (counts_in_a_row (Suc (Suc (Suc (Suc 0)))) ?srv client1)
              = \<lparr>rateLimit = 3, requestsMade = [0, 2000, 5000, 9000], clock = quick_clock, ticks = 10\<rparr>"
    using count_step [OF l3, of "\<lparr>rateLimit = 3, requestsMade = [0, 2000, 5000], clock = quick_clock, ticks = 9\<rparr>"]
    by (simp add: exceededRateLimit_def record_request_def quick_clock_def)
  have "(4::nat) = Suc (Suc (Suc (Suc 0)))" by simp
  then show ?thesis
    by (simp only: l4) (simp add: exceededRateLimit_def quick_clock_def)
qed

section \<open>Failed requests\<close>

lemma get_log:
  assumes "admit (limiter w) = Some l"
  shows "requestsMade (limiter (snd (get srv u p output tmo w))) =
           requestsMade l @ (case srv (sent w) (request_of u output tmo (heap w p)) of
                               Failed \<Rightarrow> [] | Replied b \<Rightarrow> [clock l (ticks l)])"
    and "sent (snd (get srv u p output tmo w)) = sent w @ [request_of u output tmo (heap w p)]"
    and "(fst (get srv u p output tmo w) = Raised HTTPError)
           = (srv (sent w) (request_of u output tmo (heap w p)) = Failed)"
proof -
  let ?rq = "request_of u output tmo (heap w p)"
  show "requestsMade (limiter (snd (get srv u p output tmo w))) =
           requestsMade l @ (case srv (sent w) ?rq of Failed \<Rightarrow> [] | Replied b \<Rightarrow> [clock l (ticks l)])"
  proof (cases "srv (sent w) ?rq")
    case Failed
    from get_failed [where srv = srv, OF assms this] Failed show ?thesis by simp
  next
    case (Replied b)
    from get_replied [where srv = srv, OF assms this] Replied show ?thesis
      by (simp add: record_request_def)
  qed
  show "sent (snd (get srv u p output tmo w)) = sent w @ [?rq]"
  proof (cases "srv (sent w) ?rq")
    case Failed
    from get_failed [where srv = srv, OF assms this] show ?thesis by simp
  next
    case (Replied b)
    from get_replied [where srv = srv, OF assms this] show ?thesis by simp
  qed
  show "(fst (get srv u p output tmo w) = Raised HTTPError) = (srv (sent w) ?rq = Failed)"
  proof (cases "srv (sent w) ?rq")
    case Failed
    from get_failed [where srv = srv, OF assms this] Failed show ?thesis by simp
  next
    case (Replied b)
    from get_replied [where srv = srv, OF assms this] Replied show ?thesis
      by (simp split: option.splits)
  qed
qed

text \<open>
  C7, as the code has it: once \<^verbatim>\<open>_get\<close> is admitted, with the log pruned by the
  admission check to that of \<open>l\<close> (timestamps of the earlier log only, and possibly fewer
  of them), it sends its request exactly once; it raises the transport's error exactly
  when the transport fails; and the log it leaves is the pruned one, extended by one
  timestamp when the transport succeeded and by nothing when it failed. A failed request
  appends nothing, but the log need not be the one \<^verbatim>\<open>_get\<close> was called with.
\<close>

theorem failed_request_leaves_log:
  assumes "admit (limiter w) = Some l"
  shows "sent (snd (get srv u p output tmo w)) = sent w @ [request_of u output tmo (heap w p)]
       \<and> (fst (get srv u p output tmo w) = Raised HTTPError)
           = (srv (sent w) (request_of u output tmo (heap w p)) = Failed)
       \<and> requestsMade (limiter (snd (get srv u p output tmo w))) =
           requestsMade l @ (case srv (sent w) (request_of u output tmo (heap w p)) of
                               Failed \<Rightarrow> [] | Replied b \<Rightarrow> [clock l (ticks l)])
       \<and> set (requestsMade l) \<subseteq> set (requestsMade (limiter w))
       \<and> length (requestsMade l) \<le> length (requestsMade (limiter w))"
  using get_log [OF assms] admit_frame [OF assms] by simp

lemma limiter_after_one_request:
  "limiter after_one_request
     = \<lparr>rateLimit = 3, requestsMade = [0], clock = steady_clock, ticks = 1\<rparr>"
proof -
  have "limiter after_one_request = record_request (rested (limiter client0))"
    unfolding after_one_request_def counts_in_a_row.simps
    by (rule count_limiter [OF admit_calm [OF calm_client0] ])
  then show ?thesis
    by (simp add: record_request_def rested_def client0_def PubMed_init_def steady_clock_def)
qed

lemma limiter_stale_copy:
  "limiter (snd (copy_parameters after_one_request))
     = \<lparr>rateLimit = 3, requestsMade = [0], clock = steady_clock, ticks = 1\<rparr>"
  by (simp add: copy_parameters_def limiter_after_one_request)

lemma admit_stale_copy:
  "admit (limiter (snd (copy_parameters after_one_request)))
     = Some \<lparr>rateLimit = 3, requestsMade = [], clock = steady_clock, ticks = 2\<rparr>"
proof -
  have "exceededRateLimit (limiter (snd (copy_parameters after_one_request)))
          = (False, \<lparr>rateLimit = 3, requestsMade = [], clock = steady_clock, ticks = 2\<rparr>)"
    by (simp add: limiter_stale_copy exceededRateLimit_def steady_clock_def)
  then show ?thesis
    using admit_at_once [of "limiter (snd (copy_parameters after_one_request))"] by simp
qed

lemma unavailable_fails: "unavailable hist rq = Failed"
  by (simp add: unavailable_def)

theorem failed_request_leaves_log_witness:
  "admit (limiter (snd (copy_parameters after_one_request)))
     = Some \<lparr>rateLimit = 3, requestsMade = [], clock = steady_clock, ticks = 2\<rparr>
   \<and> requestsMade (limiter (snd (copy_parameters after_one_request))) = [0]
   \<and> unavailable (sent (snd (copy_parameters after_one_request)))
        (request_of ''/entrez/eutils/esearch.fcgi'' ''json'' 10
           (heap (snd (copy_parameters after_one_request))
              (fst (copy_parameters after_one_request)))) = Failed
   \<and> sent (snd (get unavailable ''/entrez/eutils/esearch.fcgi''
                 (fst (copy_parameters after_one_request)) ''json'' 10
                 (snd (copy_parameters after_one_request))))
       = sent (snd (copy_parameters after_one_request))
         @ [request_of ''/entrez/eutils/esearch.fcgi'' ''json'' 10
              (heap (snd (copy_parameters after_one_request))
                 (fst (copy_parameters after_one_request)))]
   \<and> fst (get unavailable ''/entrez/eutils/esearch.fcgi''
             (fst (copy_parameters after_one_request)) ''json'' 10
             (snd (copy_parameters after_one_request))) = Raised HTTPError
   \<and> requestsMade (limiter (snd (get unavailable ''/entrez/eutils/esearch.fcgi''
                                    (fst (copy_parameters after_one_request)) ''json'' 10
                                    (snd (copy_parameters after_one_request)))))
       = requestsMade \<lparr>rateLimit = 3, requestsMade = [], clock = steady_clock, ticks = 2\<rparr>"
proof -
  let ?p = "fst (copy_parameters after_one_request)"
  let ?w = "snd (copy_parameters after_one_request)"
  let ?l = "\<lparr>rateLimit = 3, requestsMade = [], clock = steady_clock, ticks = 2\<rparr>"
  have f: "unavailable (sent ?w)
             (request_of ''/entrez/eutils/esearch.fcgi'' ''json'' 10 (heap ?w ?p)) = Failed"
    by (rule unavailable_fails)
  have o: "requestsMade (limiter ?w) = [0]"
    by (simp add: limiter_stale_copy)
  from failed_request_leaves_log
         [of ?w ?l unavailable "''/entrez/eutils/esearch.fcgi''" ?p "''json''" 10,
          OF admit_stale_copy] admit_stale_copy f o
  show ?thesis by simp
qed

theorem failed_request_log_counterexample:
  "requestsMade (limiter (snd (copy_parameters after_one_request))) = [0]
   \<and> fst (get unavailable ''/entrez/eutils/esearch.fcgi'' (fst (copy_parameters after_one_request))
             ''json'' 10 (snd (copy_parameters after_one_request))) = Raised HTTPError
   \<and> requestsMade (limiter (snd (get unavailable ''/entrez/eutils/esearch.fcgi''
                                    (fst (copy_parameters after_one_request)) ''json'' 10
                                    (snd (copy_parameters after_one_request))))) = []"
proof -
  let ?p = "fst (copy_parameters after_one_request)"
  let ?w = "snd (copy_parameters after_one_request)"
  have f: "unavailable (sent ?w)
             (request_of ''/entrez/eutils/esearch.fcgi'' ''json'' 10 (heap ?w ?p)) = Failed"
    by (rule unavailable_fails)
  have r: "fst (get unavailable ''/entrez/eutils/esearch.fcgi'' ?p ''json'' 10 ?w) = Raised HTTPError"
    using get_log(3) [OF admit_stale_copy, of unavailable "''/entrez/eutils/esearch.fcgi''" ?p
                        "''json''" 10] f
    by simp
  have g: "requestsMade (limiter (snd (get unavailable ''/entrez/eutils/esearch.fcgi'' ?p ''json'' 10
                                         ?w))) = []"
    using get_log(1) [OF admit_stale_copy, of unavailable "''/entrez/eutils/esearch.fcgi''" ?p
                        "''json''" 10] f
    by simp
  from limiter_stale_copy r g show ?thesis by simp
qed

section \<open>Fetching records\<close>

lemma iter_preorder: "iter t e = filter (\<lambda>x. tag x = t) (preorder e)"
proof (induction t e rule: iter.induct)
  case (1 t tg cs)
  have m: "map (iter t) cs = map (\<lambda>c. filter (\<lambda>x. tag x = t) (preorder c)) cs"
    by (rule map_cong [OF refl]) (rule 1)
  show ?case
    unfolding iter.simps m by (simp add: filter_concat comp_def)
qed

lemma getArticles_prepare:
  "getArticles srv article_ids tmo w =
     (case get srv ''/entrez/eutils/efetch.fcgi'' (next_addr w) ''xml'' tmo
             (allocated (AList.update ''id'' (Ids article_ids) (defaults w)) w) of
        (Spinning, w2) \<Rightarrow> (Spinning, w2)
      | (Raised e, w2) \<Rightarrow> (Raised e, w2)
      | (Returned (JsonDoc j), w2) \<Rightarrow> (Raised TypeError, w2)
      | (Returned (TextDoc None), w2) \<Rightarrow> (Raised ParseError, w2)
      | (Returned (TextDoc (Some tree)), w2) \<Rightarrow> (Returned (publications tree), w2))"
proof -
  have a: "\<And>ps. allocated ps w
             = w\<lparr>next_addr := Suc (next_addr w), heap := (heap w)(next_addr w := ps)\<rparr>"
    by (rule world_eqI) (simp_all add: allocated_def)
  show ?thesis
    by (simp add: getArticles_def copy_parameters_def setitem_def Let_def a defaults_def)
qed

lemma getArticles_replied:
  assumes "admit (limiter w) = Some l"
    and "srv (sent w) (fetch_request article_ids tmo w) = Replied b"
  shows "getArticles srv article_ids tmo w =
           ((case xml_text b of None \<Rightarrow> Raised ParseError
             | Some tree \<Rightarrow> Returned (publications tree)),
            searched l (fetch_request article_ids tmo w) w)"
proof -
  let ?ps = "AList.update ''id'' (Ids article_ids) (defaults w)"
  let ?w1 = "allocated ?ps w"
  let ?rq = "fetch_request article_ids tmo w"
  have l: "admit (limiter ?w1) = Some l" using assms(1) by simp
  have r: "srv (sent ?w1) (request_of ''/entrez/eutils/efetch.fcgi'' ''xml'' tmo
             (heap ?w1 (next_addr w))) = Replied b"
    using assms(2) by (simp add: fetch_request_def)
  have w2: "(requested l (next_addr w) (request_of ''/entrez/eutils/efetch.fcgi'' ''xml'' tmo
               (heap ?w1 (next_addr w))) ?w1)\<lparr>limiter := record_request l\<rparr> = searched l ?rq w"
    by (rule world_eqI) (simp_all add: requested_def allocated_def searched_def fetch_request_def)
  from get_replied [where srv = srv, OF l r] w2
  have "get srv ''/entrez/eutils/efetch.fcgi'' (next_addr w) ''xml'' tmo ?w1 =
          (Returned (TextDoc (xml_text b)), searched l ?rq w)"
    by simp
  then show ?thesis
    by (simp add: getArticles_prepare split: option.splits)
qed

lemma getArticles_Returned:
  assumes "fst (getArticles srv article_ids tmo w) = Returned arts"
  shows "\<exists>l b tree. admit (limiter w) = Some l
            \<and> srv (sent w) (fetch_request article_ids tmo w) = Replied b
            \<and> xml_text b = Some tree \<and> arts = publications tree"
proof -
  let ?ps = "AList.update ''id'' (Ids article_ids) (defaults w)"
  let ?w1 = "allocated ?ps w"
  let ?rq = "fetch_request article_ids tmo w"
  show ?thesis
  proof (cases "admit (limiter w)")
    case None
    then have "get srv ''/entrez/eutils/efetch.fcgi'' (next_addr w) ''xml'' tmo ?w1 = (Spinning, ?w1)"
      by (simp add: get_spinning)
    with assms show ?thesis by (simp add: getArticles_prepare)
  next
    case (Some l)
    then have l: "admit (limiter ?w1) = Some l" by simp
    show ?thesis
    proof (cases "srv (sent w) ?rq")
      case Failed
      then have "srv (sent ?w1) (request_of ''/entrez/eutils/efetch.fcgi'' ''xml'' tmo
                   (heap ?w1 (next_addr w))) = Failed"
        by (simp add: fetch_request_def)
      from get_failed [where srv = srv, OF l this] assms show ?thesis
        by (simp add: getArticles_prepare)
    next
      case (Replied b)
      from getArticles_replied [where srv = srv, OF Some Replied] assms Some Replied
      show ?thesis by (auto split: option.splits)
    qed
  qed
qed

text \<open>
  C10: when the fetch request is answered with a well-formed payload, \<^verbatim>\<open>_getArticles\<close>
  yields the journal articles of the payload in document order and after them, from a
  second pass, its book articles in document order. The order is that of the payload
  and owes nothing to the order of the ids asked for.
\<close>

theorem articles_then_books_in_payload_order:
  assumes "admit (limiter w) = Some l"
    and "srv (sent w) (fetch_request article_ids tmo w) = Replied b"
    and "xml_text b = Some tree"
  shows "fst (getArticles srv article_ids tmo w) =
           Returned (map PubMedArticle (filter (\<lambda>e. tag e = ''PubmedArticle'') (preorder tree))
                     @ map PubMedBookArticle
                         (filter (\<lambda>e. tag e = ''PubmedBookArticle'') (preorder tree)))"
  using getArticles_replied [where srv = srv, OF assms(1,2)] assms(3)
  by (simp add: publications_def iter_preorder)

theorem articles_then_books_in_payload_order_witness:
  "admit (limiter client0) = Some (rested (limiter client0))
   \<and> always \<lparr>json = None, xml_text = Some book_first\<rparr> (sent client0)
        (fetch_request [''7'', ''8''] 10 client0) = Replied \<lparr>json = None, xml_text = Some book_first\<rparr>
   \<and> xml_text \<lparr>json = None, xml_text = Some book_first\<rparr> = Some book_first
   \<and> map tag (preorder book_first) =
       [''PubmedArticleSet'', ''PubmedBookArticle'', ''BookDocument'', ''PubmedArticle'',
        ''MedlineCitation'']
   \<and> fst (getArticles (always \<lparr>json = None, xml_text = Some book_first\<rparr>) [''7'', ''8''] 10 client0)
       = Returned [PubMedArticle (Element ''PubmedArticle'' [Element ''MedlineCitation'' [] ]),
                   PubMedBookArticle (Element ''PubmedBookArticle'' [Element ''BookDocument'' [] ])]"
proof -
  have h1: "admit (limiter client0) = Some (rested (limiter client0))"
    by (rule admit_calm [OF calm_client0])
  have h2: "always \<lparr>json = None, xml_text = Some book_first\<rparr> (sent client0)
        (fetch_request [''7'', ''8''] 10 client0) = Replied \<lparr>json = None, xml_text = Some book_first\<rparr>"
    by (rule always_replies)
  have h3: "xml_text \<lparr>json = None, xml_text = Some book_first\<rparr> = Some book_first"
    by simp
  have p: "preorder book_first =
      [book_first, Element ''PubmedBookArticle'' [Element ''BookDocument'' [] ],
       Element ''BookDocument'' [],
       Element ''PubmedArticle'' [Element ''MedlineCitation'' [] ], Element ''MedlineCitation'' [] ]"
    by (simp add: book_first_def)
  have t: "tag book_first = ''PubmedArticleSet''"
    by (simp add: book_first_def)
  from articles_then_books_in_payload_order
         [where srv = "always \<lparr>json = None, xml_text = Some book_first\<rparr>", OF h1 h2 h3] h1 h2 h3
  show ?thesis by (simp add: p t)
qed

lemma concat_batches: "0 < n \<Longrightarrow> concat (batches xs n) = xs"
proof (induction xs n rule: batches.induct)
  case (1 xs n)
  show ?case
  proof (cases "xs = []")
    case True
    then show ?thesis by (simp add: batches.simps)
  next
    case False
    with 1 have "concat (batches (drop n xs) n) = drop n xs" by simp
    with False 1(2) show ?thesis by (subst batches.simps) simp
  qed
qed

lemma fetch_request_id: "map_of (params (fetch_request article_ids tmo w)) ''id'' = Some (Ids article_ids)"
  by (simp add: fetch_request_def request_of_def update_conv')

lemma fetch_batches_sum:
  assumes "answers_per_id srv recs"
  shows "fst (fetch_batches srv tmo bs w) = Returned rs \<Longrightarrow>
         mset (concat rs) = (\<Sum>i\<in>#mset (concat bs). recs i)"
proof (induction bs arbitrary: w rs)
  case Nil
  then show ?case by simp
next
  case (Cons batch rest)
  obtain r w1 where g: "getArticles srv batch tmo w = (r, w1)"
    by (cases "getArticles srv batch tmo w")
  obtain r2 w2 where f: "fetch_batches srv tmo rest w1 = (r2, w2)"
    by (cases "fetch_batches srv tmo rest w1")
  from Cons.prems g f obtain arts others where
    r: "r = Returned arts" and r2: "r2 = Returned others" and rs: "rs = arts # others"
    by (cases r; cases r2) auto
  from g r have "fst (getArticles srv batch tmo w) = Returned arts" by simp
  from getArticles_Returned [OF this] obtain b tree where
    "srv (sent w) (fetch_request batch tmo w) = Replied b" "xml_text b = Some tree"
    "arts = publications tree"
    by blast
  with assms have a: "mset arts = (\<Sum>i\<in>#mset batch. recs i)"
    using fetch_request_id [of batch tmo w] unfolding answers_per_id_def by blast
  from f r2 have "fst (fetch_batches srv tmo rest w1) = Returned others" by simp
  from Cons.IH [OF this] have "mset (concat others) = (\<Sum>i\<in>#mset (concat rest). recs i)" .
  with a rs show ?case by simp
qed

text \<open>
  C9: when the fetch endpoint returns the same records for the same ids, fetching an id
  list batch by batch with one positive batch size and with another yields, once the
  batches are flattened, the same multiset of records: the records of the ids of the
  list.
\<close>

theorem batch_size_irrelevant:
  assumes "answers_per_id srv recs"
    and "0 < n" and "0 < m"
    and "fst (fetch_batches srv tmo (batches article_ids n) w) = Returned rs"
    and "fst (fetch_batches srv tmo' (batches article_ids m) w') = Returned rs'"
  shows "mset (concat rs) = mset (concat rs')
       \<and> mset (concat rs) = (\<Sum>i\<in>#mset article_ids. recs i)"
  using fetch_batches_sum [OF assms(1,4)] fetch_batches_sum [OF assms(1,5)]
  by (simp add: concat_batches assms(2,3))

lemma publications_echo:
  "publications (Element ''PubmedArticleSet'' (map article_of ids)) = map (PubMedArticle \<circ> article_of) ids"
proof -
  have a: "concat (map (iter ''PubmedArticle'') (map article_of ids)) = map article_of ids"
    by (induction ids) (simp_all add: article_of_def)
  have b: "concat (map (iter ''PubmedBookArticle'') (map article_of ids)) = []"
    by (induction ids) (simp_all add: article_of_def)
  show ?thesis
    using a b by (simp add: publications_def)
qed

lemma echo_answers_per_id: "answers_per_id echo one_article"
proof -
  have s: "(\<Sum>i\<in>#mset ids. one_article i) = mset (map (PubMedArticle \<circ> article_of) ids)" for ids
    by (induction ids) (simp_all add: one_article_def)
  show ?thesis
    unfolding answers_per_id_def
    by (auto simp: echo_def s publications_echo split: option.splits pval.splits)
qed

lemma echo_step:
  assumes "calm w"
  shows "getArticles echo ids tmo w =
           (Returned (map (PubMedArticle \<circ> article_of) ids),
            searched (rested (limiter w)) (fetch_request ids tmo w) w)"
proof -
  have "echo (sent w) (fetch_request ids tmo w) =
          Replied \<lparr>json = None, xml_text = Some (Element ''PubmedArticleSet'' (map article_of ids))\<rparr>"
    by (simp add: echo_def fetch_request_id)
  from getArticles_replied [where srv = echo, OF admit_calm [OF assms] this]
  show ?thesis by (simp add: publications_echo)
qed

lemma echo_run:
  "calm w \<Longrightarrow> fst (fetch_batches echo tmo bs w) = Returned (map (map (PubMedArticle \<circ> article_of)) bs)"
proof (induction bs arbitrary: w)
  case Nil
  then show ?case by simp
next
  case (Cons batch rest)
  let ?w1 = "searched (rested (limiter w)) (fetch_request batch tmo w) w"
  obtain r2 w2 where f: "fetch_batches echo tmo rest ?w1 = (r2, w2)"
    by (cases "fetch_batches echo tmo rest ?w1")
  with Cons.IH [OF calm_searched [OF Cons.prems], of "fetch_request batch tmo w"]
  have "r2 = Returned (map (map (PubMedArticle \<circ> article_of)) rest)"
    by simp
  with f show ?case
    by (simp add: echo_step [OF Cons.prems])
qed

theorem batch_size_irrelevant_witness:
  "answers_per_id echo one_article
   \<and> (0::nat) < 1 \<and> (0::nat) < 2
   \<and> fst (fetch_batches echo 10 (batches [''1'', ''2'', ''3''] 1) client0)
       = Returned [ [PubMedArticle (article_of ''1'')], [PubMedArticle (article_of ''2'')],
                   [PubMedArticle (article_of ''3'')] ]
   \<and> fst (fetch_batches echo 10 (batches [''1'', ''2'', ''3''] 2) client0)
       = Returned [ [PubMedArticle (article_of ''1''), PubMedArticle (article_of ''2'')],
                   [PubMedArticle (article_of ''3'')] ]
   \<and> mset (concat [ [PubMedArticle (article_of ''1'')], [PubMedArticle (article_of ''2'')],
                    [PubMedArticle (article_of ''3'')] ])
       = mset (concat [ [PubMedArticle (article_of ''1''), PubMedArticle (article_of ''2'')],
                       [PubMedArticle (article_of ''3'')] ])"
proof -
  have b1: "batches [''1'', ''2'', ''3''] 1 = [ [''1''], [''2''], [''3''] ]"
    by (simp add: batches.simps)
  have b2: "batches [''1'', ''2'', ''3''] 2 = [ [''1'', ''2''], [''3''] ]"
    by (simp add: batches.simps)
  have h1: "(0::nat) < 1" and h2: "(0::nat) < 2" by simp_all
  have r1: "fst (fetch_batches echo 10 (batches [''1'', ''2'', ''3''] 1) client0)
       = Returned [ [PubMedArticle (article_of ''1'')], [PubMedArticle (article_of ''2'')],
                   [PubMedArticle (article_of ''3'')] ]"
    by (simp only: b1 echo_run [OF calm_client0]) simp
  have r2: "fst (fetch_batches echo 10 (batches [''1'', ''2'', ''3''] 2) client0)
       = Returned [ [PubMedArticle (article_of ''1''), PubMedArticle (article_of ''2'')],
                   [PubMedArticle (article_of ''3'')] ]"
    by (simp only: b2 echo_run [OF calm_client0]) simp
  from batch_size_irrelevant [OF echo_answers_per_id h1 h2 r1 r2]
  have "mset (concat [ [PubMedArticle (article_of ''1'')], [PubMedArticle (article_of ''2'')],
                    [PubMedArticle (article_of ''3'')] ])
       = mset (concat [ [PubMedArticle (article_of ''1''), PubMedArticle (article_of ''2'')],
                       [PubMedArticle (article_of ''3'')] ])"
    by blast
  with echo_answers_per_id h1 h2 r1 r2 show ?thesis by blast
qed

section \<open>The default parameters\<close>

lemma extends_refl: "extends w w"
  by (simp add: extends_def)

lemma extends_trans: "extends a b \<Longrightarrow> extends b c \<Longrightarrow> extends a c"
  by (auto simp: extends_def)

lemma extends_defaults: "parameters w < next_addr w \<Longrightarrow> extends w w' \<Longrightarrow> defaults w' = defaults w"
  by (simp add: extends_def defaults_def)

lemma get_frame:
  "parameters (snd (get srv u p output tmo w)) = parameters w
   \<and> next_addr (snd (get srv u p output tmo w)) = next_addr w
   \<and> (\<forall>a. a \<noteq> p \<longrightarrow> heap (snd (get srv u p output tmo w)) a = heap w a)"
proof (cases "admit (limiter w)")
  case None
  then show ?thesis by (simp add: get_spinning)
next
  case (Some l)
  show ?thesis
  proof (cases "srv (sent w) (request_of u output tmo (heap w p))")
    case Failed
    from get_failed [where srv = srv, OF Some this] show ?thesis by simp
  next
    case (Replied b)
    from get_replied [where srv = srv, OF Some this] show ?thesis by simp
  qed
qed

lemma get_fresh_extends:
  "extends w (snd (get srv u (next_addr w) output tmo (allocated ps w)))"
  using get_frame [of srv u "next_addr w" "output" tmo "allocated ps w"]
  by (simp add: extends_def)

lemma getArticles_world:
  "snd (getArticles srv article_ids tmo w) =
     snd (get srv ''/entrez/eutils/efetch.fcgi'' (next_addr w) ''xml'' tmo
            (allocated (AList.update ''id'' (Ids article_ids) (defaults w)) w))"
  by (simp add: getArticles_prepare split: prod.splits outcome.splits payload.splits option.splits)

lemma getArticles_extends: "extends w (snd (getArticles srv article_ids tmo w))"
  by (simp add: getArticles_world get_fresh_extends)

lemma fetch_batches_extends: "extends w (snd (fetch_batches srv tmo bs w))"
proof (induction bs arbitrary: w)
  case Nil
  then show ?case by (simp add: extends_refl)
next
  case (Cons batch rest)
  obtain r w1 where g: "getArticles srv batch tmo w = (r, w1)"
    by (cases "getArticles srv batch tmo w")
  then have e1: "extends w w1"
    using getArticles_extends [of w srv batch tmo] by simp
  obtain r2 w2 where f: "fetch_batches srv tmo rest w1 = (r2, w2)"
    by (cases "fetch_batches srv tmo rest w1")
  then have e2: "extends w w2"
    using Cons.IH [of w1] e1 extends_trans by fastforce
  from g f e1 e2 show ?case
    by (cases r; cases r2) simp_all
qed

lemma getTotalResultsCount_world:
  "snd (getTotalResultsCount srv q tmo w) =
     snd (get srv ''/entrez/eutils/esearch.fcgi'' (next_addr w) ''json'' tmo
            (allocated (AList.update ''retmax'' (Num 1) (AList.update ''term'' (Str q) (defaults w)))
               w))"
proof -
  have a: "\<And>ps. allocated ps w
             = w\<lparr>next_addr := Suc (next_addr w), heap := (heap w)(next_addr w := ps)\<rparr>"
    by (rule world_eqI) (simp_all add: allocated_def)
  show ?thesis
    by (simp add: getTotalResultsCount_def copy_parameters_def setitem_def Let_def a defaults_def
          split: prod.splits outcome.splits payload.splits option.splits count_field.splits)
qed

lemma getTotalResultsCount_extends: "extends w (snd (getTotalResultsCount srv q tmo w))"
  by (simp add: getTotalResultsCount_world get_fresh_extends)

lemma collect_extends:
  assumes "\<And>c w0 r0 w1. rec c w0 = Some (r0, w1) \<Longrightarrow> extends w0 w1"
  shows "collect rec cs acc w = Some (r, w') \<Longrightarrow> extends w w'"
proof (induction cs arbitrary: acc w)
  case Nil
  then show ?case by (simp add: extends_refl)
next
  case (Cons c cs)
  from Cons.prems obtain r0 w1 where s: "rec c w = Some (r0, w1)"
    by (cases "rec c w") auto
  from assms [OF s] have e: "extends w w1" .
  show ?case
  proof (cases r0)
    case (Returned ids)
    with s Cons.prems have "collect rec cs (acc @ ids) w1 = Some (r, w')" by simp
    from Cons.IH [OF this] e show ?thesis by (rule extends_trans [rotated])
  next
    case (Raised x)
    with s Cons.prems e show ?thesis by simp
  next
    case Spinning
    with s Cons.prems e show ?thesis by simp
  qed
qed

lemma split_extends:
  assumes "\<And>c w0 r0 w1. rec c w0 = Some (r0, w1) \<Longrightarrow> extends w0 w1"
    and "split_or_return rec win response n_total retmax w = Some (r, w')"
  shows "extends w w'"
  using assms(2) collect_extends [of rec _ "[]" w r w', OF assms(1)]
  by (auto simp: split_or_return_def Let_def extends_refl split: if_splits)

lemma body_extends:
  assumes "\<And>c w0 r0 w1. rec c w0 = Some (r0, w1) \<Longrightarrow> extends w0 w1"
    and "getArticleIds_body rec srv q max_results tmo win w = Some (r, w')"
  shows "extends w w'"
proof -
  let ?g = "get srv ''/entrez/eutils/esearch.fcgi'' (next_addr w) ''json'' tmo
              (allocated (search_parameters (heap w (parameters w)) q max_results win) w)"
  obtain r0 w2 where g: "?g = (r0, w2)" by (cases ?g)
  with get_fresh_extends [of w srv "''/entrez/eutils/esearch.fcgi''" "''json''" tmo
         "search_parameters (heap w (parameters w)) q max_results win"]
  have e: "extends w w2" by simp
  have "w' = w2 \<or> (\<exists>response n_total retmax.
          split_or_return rec win response n_total retmax w2 = Some (r, w'))"
    using assms(2) g
    by (auto simp: body_prepare
          split: outcome.splits payload.splits option.splits count_field.splits)
  then show ?thesis
  proof
    assume "w' = w2"
    with e show ?thesis by simp
  next
    assume "\<exists>response n_total retmax.
          split_or_return rec win response n_total retmax w2 = Some (r, w')"
    then obtain response n_total retmax where
      "split_or_return rec win response n_total retmax w2 = Some (r, w')" by blast
    from split_extends [of rec, OF assms(1) this] e show ?thesis
      by (rule extends_trans [rotated])
  qed
qed

lemma getArticleIds_extends:
  "getArticleIds depth srv q max_results tmo win w = Some (r, w') \<Longrightarrow> extends w w'"
proof (induction depth arbitrary: win w r w')
  case 0
  then show ?case by simp
next
  case (Suc depth)
  from Suc.prems have "getArticleIds_body (getArticleIds depth srv q max_results tmo) srv q
                         max_results tmo win w = Some (r, w')"
    by (simp add: getArticleIds.simps(2))
  from body_extends [of "getArticleIds depth srv q max_results tmo", OF Suc.IH this]
  show ?case .
qed

lemma get_publications_from_ids_extends:
  "extends w (snd (get_publications_from_ids srv article_ids tmo w))"
  by (simp add: get_publications_from_ids_def fetch_batches_extends)

lemma query_extends:
  assumes "query depth srv q max_results tmo w = Some (r, w')"
  shows "extends w w'"
proof (cases "getArticleIds depth srv q max_results tmo default_window w")
  case None
  with assms show ?thesis by (simp add: query_def)
next
  case (Some rw)
  obtain r0 w1 where rw: "rw = (r0, w1)" by (cases rw)
  from getArticleIds_extends Some rw have e: "extends w w1" by blast
  show ?thesis
  proof (cases r0)
    case (Returned article_ids)
    with assms Some rw have "w' = snd (fetch_batches srv tmo (batches article_ids 250) w1)"
      by (cases "fetch_batches srv tmo (batches article_ids 250) w1") (auto simp: query_def)
    with fetch_batches_extends [of w1 srv tmo "batches article_ids 250"] e show ?thesis
      using extends_trans by blast
  next
    case (Raised x)
    with assms Some rw e show ?thesis by (simp add: query_def)
  next
    case Spinning
    with assms Some rw e show ?thesis by (simp add: query_def)
  qed
qed

lemma batch_query_extends:
  assumes "batch_query depth srv q batch_size tmo w = Some (r, w')"
  shows "extends w w'"
proof (cases "getArticleIds depth srv q 10000000 tmo default_window w")
  case None
  with assms show ?thesis by (simp add: batch_query_def)
next
  case (Some rw)
  obtain r0 w1 where rw: "rw = (r0, w1)" by (cases rw)
  from getArticleIds_extends Some rw have e: "extends w w1" by blast
  show ?thesis
  proof (cases r0)
    case (Returned article_ids)
    with assms Some rw have "w' = snd (fetch_batches srv tmo (batches article_ids batch_size) w1)"
      by (auto simp: batch_query_def)
    with fetch_batches_extends [of w1 srv tmo "batches article_ids batch_size"] e show ?thesis
      using extends_trans by blast
  next
    case (Raised x)
    with assms Some rw e show ?thesis by (simp add: batch_query_def)
  next
    case Spinning
    with assms Some rw e show ?thesis by (simp add: batch_query_def)
  qed
qed

text \<open>
  C8, as the code has it: no public operation modifies the default parameter dictionary
  of the client. Each one works on \<^verbatim>\<open>self.parameters.copy()\<close>, and the \<^verbatim>\<open>retmode\<close> that
  \<^verbatim>\<open>_get\<close> sets goes into that copy. (The client is well formed when the address held
  by \<^verbatim>\<open>self.parameters\<close> is in use, as it is after \<^verbatim>\<open>__init__\<close>.)
\<close>

theorem default_parameters_unchanged:
  assumes "parameters w < next_addr w"
  shows "defaults (snd (getTotalResultsCount srv q tmo w)) = defaults w
       \<and> defaults (snd (get_publications_from_ids srv article_ids tmo w)) = defaults w
       \<and> (\<forall>r w'. query_publication_ids depth srv q max_results tmo w = Some (r, w')
                   \<longrightarrow> defaults w' = defaults w)
       \<and> (\<forall>r w'. query depth srv q max_results tmo w = Some (r, w') \<longrightarrow> defaults w' = defaults w)
       \<and> (\<forall>r w'. batch_query depth srv q batch_size tmo w = Some (r, w')
                   \<longrightarrow> defaults w' = defaults w)"
proof (intro conjI allI impI)
  show "defaults (snd (getTotalResultsCount srv q tmo w)) = defaults w"
    using assms getTotalResultsCount_extends by (rule extends_defaults)
  show "defaults (snd (get_publications_from_ids srv article_ids tmo w)) = defaults w"
    using assms get_publications_from_ids_extends by (rule extends_defaults)
  show "defaults w' = defaults w"
    if "query_publication_ids depth srv q max_results tmo w = Some (r, w')" for r w'
    using assms getArticleIds_extends [OF that [unfolded query_publication_ids_def] ]
    by (rule extends_defaults)
  show "defaults w' = defaults w"
    if "query depth srv q max_results tmo w = Some (r, w')" for r w'
    using assms query_extends [OF that] by (rule extends_defaults)
  show "defaults w' = defaults w"
    if "batch_query depth srv q batch_size tmo w = Some (r, w')" for r w'
    using assms batch_query_extends [OF that] by (rule extends_defaults)
qed

lemma client0_parameters: "parameters client0 < next_addr client0"
  by (simp add: client0_def PubMed_init_def)

lemma defaults_client0:
  "defaults client0 =
     [(''tool'', Str ''my_tool''), (''email'', Str ''my_email@example.com''), (''db'', Str ''pubmed'')]"
  by (simp add: defaults_def client0_def PubMed_init_def)

lemma json_two_faced:
  "json two_faced = Some \<lparr>result_count = Count 1, idlist = Some [''7'']\<rparr>"
  by (simp add: two_faced_def)

lemma ids_resolved:
  "\<exists>w1. getArticleIds 1 (always two_faced) ''q'' max_results 10 default_window client0
           = Some (Returned [''7''], w1)" if "1 \<le> retmax_of max_results"
proof -
  have n: "result_count \<lparr>result_count = Count 1, idlist = Some [''7'']\<rparr> = Count 1" by simp
  from getArticleIds_within [where srv = "always two_faced" and depth = 0,
         OF admit_calm [OF calm_client0] always_replies json_two_faced n that]
  show ?thesis by (simp add: ids_of_def)
qed

theorem default_parameters_unchanged_witness:
  "parameters client0 < next_addr client0
   \<and> defaults (snd (getTotalResultsCount (always two_faced) ''q'' 10 client0)) = defaults client0
   \<and> defaults (snd (get_publications_from_ids (always two_faced) [''7''] 10 client0))
       = defaults client0
   \<and> (\<exists>r w'. query_publication_ids 1 (always two_faced) ''q'' 100 10 client0 = Some (r, w')
               \<and> defaults w' = defaults client0)
   \<and> (\<exists>r w'. query 1 (always two_faced) ''q'' 100 10 client0 = Some (r, w')
               \<and> defaults w' = defaults client0)
   \<and> (\<exists>r w'. batch_query 1 (always two_faced) ''q'' 250 10 client0 = Some (r, w')
               \<and> defaults w' = defaults client0)"
proof -
  note t = default_parameters_unchanged [OF client0_parameters, of "always two_faced" "''q''" 10]
  have a: "defaults (snd (getTotalResultsCount (always two_faced) ''q'' 10 client0)) = defaults client0"
    using t by blast
  have b: "defaults (snd (get_publications_from_ids (always two_faced) [''7''] 10 client0))
       = defaults client0"
    using t by blast
  from ids_resolved [of 100] obtain w1 where
    i: "getArticleIds 1 (always two_faced) ''q'' 100 10 default_window client0
          = Some (Returned [''7''], w1)"
    by (auto simp: retmax_of_def)
  from ids_resolved [of 10000000] obtain w2 where
    j: "getArticleIds 1 (always two_faced) ''q'' 10000000 10 default_window client0
          = Some (Returned [''7''], w2)"
    by (auto simp: retmax_of_def)
  have c: "\<exists>r w'. query_publication_ids 1 (always two_faced) ''q'' 100 10 client0 = Some (r, w')
               \<and> defaults w' = defaults client0"
    using i t [of _ 1 100] by (auto simp: query_publication_ids_def)
  have "\<exists>r w'. query 1 (always two_faced) ''q'' 100 10 client0 = Some (r, w')"
    using i by (cases "fetch_batches (always two_faced) 10 (batches [''7''] 250) w1")
      (simp add: query_def)
  then have d: "\<exists>r w'. query 1 (always two_faced) ''q'' 100 10 client0 = Some (r, w')
               \<and> defaults w' = defaults client0"
    using t [of _ 1 100] by blast
  have "\<exists>r w'. batch_query 1 (always two_faced) ''q'' 250 10 client0 = Some (r, w')"
    using j by (cases "fetch_batches (always two_faced) 10 (batches [''7''] 250) w2")
      (simp add: batch_query_def)
  then have e: "\<exists>r w'. batch_query 1 (always two_faced) ''q'' 250 10 client0 = Some (r, w')
               \<and> defaults w' = defaults client0"
    using t [of _ 1 _ 250] by blast
  from client0_parameters a b c d e show ?thesis by blast
qed

theorem default_parameters_counterexample:
  "fst (getTotalResultsCount (always two_faced) ''q'' 10 client0) = Returned 1
   \<and> defaults (snd (getTotalResultsCount (always two_faced) ''q'' 10 client0)) = defaults client0
   \<and> defaults client0 =
       [(''tool'', Str ''my_tool''), (''email'', Str ''my_email@example.com''),
        (''db'', Str ''pubmed'')]
   \<and> requestsMade (limiter client0) = []
   \<and> requestsMade (limiter (snd (getTotalResultsCount (always two_faced) ''q'' 10 client0))) = [0]"
proof -
  let ?ps = "AList.update ''retmax'' (Num 1) (AList.update ''term'' (Str ''q'') (defaults client0))"
  let ?w1 = "allocated ?ps client0"
  have a: "\<And>ps. allocated ps client0
             = client0\<lparr>next_addr := Suc (next_addr client0),
                        heap := (heap client0)(next_addr client0 := ps)\<rparr>"
    by (rule world_eqI) (simp_all add: allocated_def)
  have l: "admit (limiter ?w1) = Some (rested (limiter client0))"
    using admit_calm [OF calm_client0] by simp
  have g: "get (always two_faced) ''/entrez/eutils/esearch.fcgi'' (next_addr client0) ''json'' 10 ?w1
        = (Returned (JsonDoc \<lparr>result_count = Count 1, idlist = Some [''7'']\<rparr>),
           (requested (rested (limiter client0)) (next_addr client0)
              (request_of ''/entrez/eutils/esearch.fcgi'' ''json'' 10 (heap ?w1 (next_addr client0)))
              ?w1)\<lparr>limiter := record_request (rested (limiter client0))\<rparr>)"
    using get_replied [where srv = "always two_faced", OF l always_replies]
    by (simp add: json_two_faced)
  have r: "fst (getTotalResultsCount (always two_faced) ''q'' 10 client0) = Returned 1"
    by (simp add: getTotalResultsCount_def copy_parameters_def setitem_def Let_def a [symmetric]
          defaults_def [symmetric] g)
  have d: "defaults (snd (getTotalResultsCount (always two_faced) ''q'' 10 client0)) = defaults client0"
    using extends_defaults [OF client0_parameters getTotalResultsCount_extends] .
  have e: "requestsMade (limiter client0) = []"
    by (simp add: client0_def PubMed_init_def)
  have "limiter (snd (getTotalResultsCount (always two_faced) ''q'' 10 client0))
          = record_request (rested (limiter client0))"
    by (rule count_limiter [OF admit_calm [OF calm_client0] ])
  then have f: "requestsMade (limiter (snd (getTotalResultsCount (always two_faced) ''q'' 10 client0)))
          = [0]"
    by (simp add: record_request_def rested_def client0_def PubMed_init_def steady_clock_def)
  from r d defaults_client0 e f show ?thesis by blast
qed

end
